theory Spec2Isabelle
  imports Complex_Main
begin

section \<open>Values, objects and the random generator\<close>

text \<open>
  The notebook \<^verbatim>\<open>introduction/evolutionary_algorithms.ipynb\<close> works on Python objects
  that are shared by reference: an \<^verbatim>\<open>Individual\<close> holds a reference to a numpy
  array (\<^verbatim>\<open>genes\<close>) and a number (\<^verbatim>\<open>fitness\<close>). The model keeps both kinds of
  object in an explicit store, addressed by position, so that copying an array
  (\<^verbatim>\<open>np.copy\<close>) and rebinding a variable to an existing object are different things.
\<close>

datatype error = ValueError

text \<open>
  A fitness is \<^verbatim>\<open>-np.inf\<close> (what \<^verbatim>\<open>__init__\<close> stores) or the number an objective
  returned; the two objectives of the notebook return integers.
\<close>

datatype fit = NegInf | Num int

text \<open>Python's \<^verbatim>\<open>a >= b\<close> and \<^verbatim>\<open>a > b\<close> on such values.\<close>

fun fit_ge :: "fit \<Rightarrow> fit \<Rightarrow> bool" where
  "fit_ge a NegInf = True"
| "fit_ge NegInf (Num b) = False"
| "fit_ge (Num a) (Num b) = (b \<le> a)"

fun fit_gt :: "fit \<Rightarrow> fit \<Rightarrow> bool" where
  "fit_gt NegInf b = False"
| "fit_gt (Num a) NegInf = True"
| "fit_gt (Num a) (Num b) = (b < a)"

type_synonym addr = nat

record individual =
  genes :: addr
  fitness :: fit

text \<open>
  The store: the numpy arrays and the \<^verbatim>\<open>Individual\<close> objects allocated so far (an
  address is an index; nothing is ever freed), and the future output of numpy's global
  generator: the bits \<^verbatim>\<open>np.random.randint(0, 2, ...)\<close> will deliver and the floats
  \<^verbatim>\<open>np.random.rand()\<close> will deliver. The floats are kept as rationals: the code only
  compares them with the mutation rate.
\<close>

record world =
  arrays :: "int list list"
  objects :: "individual list"
  bit_tape :: "nat \<Rightarrow> bool"
  unif_tape :: "nat \<Rightarrow> rat"

text \<open>\<^verbatim>\<open>np.random.randint(0, 2, (n,))\<close>: the next \<open>n\<close> bits of the generator.\<close>

definition randint :: "nat \<Rightarrow> world \<Rightarrow> int list \<times> world" where
  "randint n w =
     (map (\<lambda>i. if bit_tape w i then 1 else 0) [0..<n],
      w\<lparr>bit_tape := \<lambda>i. bit_tape w (i + n)\<rparr>)"

text \<open>\<^verbatim>\<open>np.random.rand()\<close>: the next float of the generator.\<close>

definition rand :: "world \<Rightarrow> rat \<times> world" where
  "rand w = (unif_tape w 0, w\<lparr>unif_tape := \<lambda>i. unif_tape w (Suc i)\<rparr>)"

definition new_array :: "int list \<Rightarrow> world \<Rightarrow> addr \<times> world" where
  "new_array xs w = (length (arrays w), w\<lparr>arrays := arrays w @ [xs]\<rparr>)"

text \<open>\<^verbatim>\<open>np.copy(a)\<close>: a new array with the content of the array at \<open>a\<close>.\<close>

definition np_copy :: "addr \<Rightarrow> world \<Rightarrow> addr \<times> world" where
  "np_copy a w = new_array (arrays w ! a) w"

section \<open>Individuals\<close>

text \<open>
  \<^verbatim>\<open>Individual.__init__(self, n)\<close> for a length that numpy accepts:
  \<^verbatim>\<open>self.genes = np.random.randint(0, 2, (n,)); self.fitness = -np.inf\<close>.
\<close>

definition Individual_init :: "nat \<Rightarrow> world \<Rightarrow> addr \<times> world" where
  "Individual_init n w =
     (let (bits, w1) = randint n w;
          (a, w2) = new_array bits w1
      in (length (objects w2),
          w2\<lparr>objects := objects w2 @ [\<lparr>genes = a, fitness = NegInf\<rparr>]\<rparr>))"

text \<open>
  \<^verbatim>\<open>Individual(n)\<close> for a Python integer: numpy raises \<^verbatim>\<open>ValueError\<close> (negative
  dimensions are not allowed) for a negative shape, and the notebook checks nothing
  itself. The store is unbounded: that numpy also fails on a length too large for it to
  allocate is outside the model, which therefore says when a call must fail, not that a
  call with a very large length succeeds.
\<close>

definition Individual :: "int \<Rightarrow> world \<Rightarrow> error + (addr \<times> world)" where
  "Individual n w = (if n < 0 then Inl ValueError else Inr (Individual_init (nat n) w))"

section \<open>Objectives\<close>

text \<open>
  An objective is called with the individual and reads it: what it can see is the content
  of the genes array and the fitness field.
\<close>

type_synonym objective = "int list \<Rightarrow> fit \<Rightarrow> int"

text \<open>\<^verbatim>\<open>def onemax(i): return np.sum(i.genes)\<close>\<close>

definition onemax :: objective where
  "onemax gs fitn = sum_list gs"

text \<open>
  \<^verbatim>\<open>
  def leading_ones(ind):
      f = 0
      for i in range(len(ind.genes)):
          if not ind.genes[i]:
              f = i
              break
      return f
  \<close>
  The loop runs over the indices that are left; \<^verbatim>\<open>break\<close> ends it.
\<close>

fun leading_ones_loop :: "int list \<Rightarrow> nat list \<Rightarrow> int \<Rightarrow> int" where
  "leading_ones_loop gs [] f = f"
| "leading_ones_loop gs (i # is) f =
     (if gs ! i = 0 then int i else leading_ones_loop gs is f)"

definition leading_ones :: objective where
  "leading_ones gs fitn = leading_ones_loop gs [0..<length gs] 0"

text \<open>
  \<^verbatim>\<open>def evaluate(ind, objective): ind.fitness = objective(ind)\<close>. The function has no
  \<^verbatim>\<open>return\<close>: its value is Python's \<^verbatim>\<open>None\<close>, the \<open>None\<close> of the first component.
\<close>

definition evaluate :: "addr \<Rightarrow> objective \<Rightarrow> world \<Rightarrow> fit option \<times> world" where
  "evaluate ind objective w =
     (let ob = objects w ! ind;
          v = objective (arrays w ! genes ob) (fitness ob)
      in (None, w\<lparr>objects := (objects w)[ind := ob\<lparr>fitness := Num v\<rparr>]\<rparr>))"

section \<open>Mutation\<close>

text \<open>\<^verbatim>\<open>not g\<close> stored into an integer array: 1 when \<open>g\<close> is 0, else 0.\<close>

definition py_not :: "int \<Rightarrow> int" where
  "py_not g = (if g = 0 then 1 else 0)"

text \<open>
  One round of the loop of \<^verbatim>\<open>mutate\<close>:
  \<^verbatim>\<open>if np.random.rand() < mutation_rate: new_genes[i] = not ind.genes[i]\<close>.
\<close>

definition mutate_step :: "addr \<Rightarrow> addr \<Rightarrow> rat \<Rightarrow> nat \<Rightarrow> world \<Rightarrow> world" where
  "mutate_step ind new_genes mutation_rate i w =
     (let (u, w1) = rand w
      in if u < mutation_rate
         then w1\<lparr>arrays := (arrays w1)
                   [new_genes := (arrays w1 ! new_genes)
                      [i := py_not (arrays w1 ! genes (objects w1 ! ind) ! i)]]\<rparr>
         else w1)"

text \<open>
  \<^verbatim>\<open>
  def mutate(ind, mutation_rate=1.0/len(ind.genes)):
      new_genes = np.copy(ind.genes)
      for i in range(len(new_genes)):
          if np.random.rand() < mutation_rate:
              new_genes[i] = not ind.genes[i]
      child = Individual(len(ind.genes))
      child.genes = new_genes
      return child
  \<close>
  The child is built by \<^verbatim>\<open>Individual\<close>, which draws a random array of its own; the
  assignment to \<^verbatim>\<open>child.genes\<close> then drops that array.
\<close>

definition mutate :: "addr \<Rightarrow> rat \<Rightarrow> world \<Rightarrow> addr \<times> world" where
  "mutate ind mutation_rate w =
     (let (new_genes, w1) = np_copy (genes (objects w ! ind)) w;
          w2 = fold (mutate_step ind new_genes mutation_rate)
                 [0..<length (arrays w1 ! new_genes)] w1;
          (child, w3) = Individual_init (length (arrays w2 ! genes (objects w2 ! ind))) w2
      in (child, w3\<lparr>objects := (objects w3)[child := (objects w3 ! child)\<lparr>genes := new_genes\<rparr>]\<rparr>))"

text \<open>
  The default of \<^verbatim>\<open>mutation_rate\<close> is the expression \<^verbatim>\<open>1.0/len(ind.genes)\<close>. Python
  evaluates a default once, when the \<^verbatim>\<open>def\<close> statement runs, in the enclosing scope: the
  \<^verbatim>\<open>ind\<close> it reads is the notebook's global \<^verbatim>\<open>ind = Individual(10)\<close>, not the
  parameter. \<open>global_ind_length\<close> is the length of that global individual's genome.
\<close>

definition global_ind_length :: nat where
  "global_ind_length = 10"

definition default_mutation_rate :: rat where
  "default_mutation_rate = 1 / of_nat global_ind_length"

text \<open>\<^verbatim>\<open>mutate(ind)\<close>, the call without a rate.\<close>

definition mutate_default :: "addr \<Rightarrow> world \<Rightarrow> addr \<times> world" where
  "mutate_default ind w = mutate ind default_mutation_rate w"

section \<open>The (1+1) evolutionary algorithm\<close>

text \<open>
  \<^verbatim>\<open>
  def one_plus_one(ind_length, num_generations, objective):
      fits = np.zeros(num_generations)
      parent = Individual(ind_length)
      evaluate(parent, objective)
      for i in tqdm(range(len(fits))):
          child = mutate(parent)
          evaluate(child, objective)
          if child.fitness >= parent.fitness:
              parent = child
          fits[i] = parent.fitness
      return fits
  \<close>
  The state of the loop is the variable \<^verbatim>\<open>parent\<close> (a reference), the array
  \<^verbatim>\<open>fits\<close> and the store.
\<close>

definition opo_generation ::
  "objective \<Rightarrow> nat \<Rightarrow> addr \<times> fit list \<times> world \<Rightarrow> addr \<times> fit list \<times> world" where
  "opo_generation objective i s =
     (case s of (parent, fits, w) \<Rightarrow>
        let (child, w1) = mutate_default parent w;
            (r, w2) = evaluate child objective w1;
            parent' = (if fit_ge (fitness (objects w2 ! child)) (fitness (objects w2 ! parent))
                       then child else parent)
        in (parent', fits[i := fitness (objects w2 ! parent')], w2))"

definition one_plus_one ::
  "int \<Rightarrow> int \<Rightarrow> objective \<Rightarrow> world \<Rightarrow> error + (fit list \<times> world)" where
  "one_plus_one ind_length num_generations objective w =
     (if num_generations < 0 then Inl ValueError
      else let fits = replicate (nat num_generations) (Num 0)
           in case Individual ind_length w of
                Inl e \<Rightarrow> Inl e
              | Inr (parent, w1) \<Rightarrow>
                  let (r, w2) = evaluate parent objective w1;
                      (parent', fits', w3) =
                         fold (opo_generation objective) [0..<length fits] (parent, fits, w2)
                  in Inr (fits', w3))"

section \<open>The (1+lambda) evolutionary algorithm\<close>

text \<open>
  \<^verbatim>\<open>
  def one_plus_lambda(ind_length, num_generations, objective, lam):
      fits = np.zeros(num_generations)
      expert = Individual(ind_length)
      evaluate(expert, objective)
      for i in tqdm(range(len(fits))):
          population = [expert,]
          best = 0
          for j in range(1, lam):
              population.append(mutate(expert))
              evaluate(population[j], objective)
              if population[j].fitness > population[best].fitness:
                  best = j
          if population[best].fitness >= expert.fitness:
              expert = population[best]
          fits[i] = expert.fitness
      return fits
  \<close>
  \<open>opl_offspring\<close> is one round of the inner loop, on the list \<^verbatim>\<open>population\<close>, the index
  \<^verbatim>\<open>best\<close> and the store; \<open>opl_select\<close> is the whole inner loop of one generation.
\<close>

definition opl_offspring ::
  "objective \<Rightarrow> addr \<Rightarrow> nat \<Rightarrow> addr list \<times> nat \<times> world \<Rightarrow> addr list \<times> nat \<times> world" where
  "opl_offspring objective expert j s =
     (case s of (population, best, w) \<Rightarrow>
        let (c, w1) = mutate_default expert w;
            population' = population @ [c];
            (r, w2) = evaluate (population' ! j) objective w1;
            best' = (if fit_gt (fitness (objects w2 ! (population' ! j)))
                               (fitness (objects w2 ! (population' ! best)))
                     then j else best)
        in (population', best', w2))"

definition opl_select :: "objective \<Rightarrow> int \<Rightarrow> addr \<Rightarrow> world \<Rightarrow> addr list \<times> nat \<times> world" where
  "opl_select objective lam expert w =
     fold (opl_offspring objective expert) [1..<nat lam] ([expert], 0, w)"

definition opl_generation ::
  "objective \<Rightarrow> int \<Rightarrow> nat \<Rightarrow> addr \<times> fit list \<times> world \<Rightarrow> addr \<times> fit list \<times> world" where
  "opl_generation objective lam i s =
     (case s of (expert, fits, w) \<Rightarrow>
        let (population, best, w1) = opl_select objective lam expert w;
            expert' = (if fit_ge (fitness (objects w1 ! (population ! best)))
                                 (fitness (objects w1 ! expert))
                       then population ! best else expert)
        in (expert', fits[i := fitness (objects w1 ! expert')], w1))"

definition one_plus_lambda ::
  "int \<Rightarrow> int \<Rightarrow> objective \<Rightarrow> int \<Rightarrow> world \<Rightarrow> error + (fit list \<times> world)" where
  "one_plus_lambda ind_length num_generations objective lam w =
     (if num_generations < 0 then Inl ValueError
      else let fits = replicate (nat num_generations) (Num 0)
           in case Individual ind_length w of
                Inl e \<Rightarrow> Inl e
              | Inr (expert, w1) \<Rightarrow>
                  let (r, w2) = evaluate expert objective w1;
                      (expert', fits', w3) =
                         fold (opl_generation objective lam) [0..<length fits] (expert, fits, w2)
                  in Inr (fits', w3))"


section \<open>Invariants of the two loops\<close>

text \<open>
  After \<open>k\<close> generations of either algorithm (\<open>g\<close> is the number of generations asked
  for): the current individual is an object of the store, \<^verbatim>\<open>fits\<close> has its full length,
  its first \<open>k\<close> entries are non-decreasing and none exceeds the current fitness, and
  neither they nor the current fitness are below \<open>lo\<close>, the fitness at the start.
\<close>

definition trace_inv :: "fit \<Rightarrow> nat \<Rightarrow> nat \<Rightarrow> addr \<times> fit list \<times> world \<Rightarrow> bool" where
  "trace_inv lo g k s =
     (case s of (cur, fits, w) \<Rightarrow>
        cur < length (objects w) \<and> length fits = g \<and>
        sorted_wrt (\<lambda>a b. fit_ge b a) (take k fits) \<and>
        list_all (\<lambda>a. fit_ge (fitness (objects w ! cur)) a) (take k fits) \<and>
        fit_ge (fitness (objects w ! cur)) lo \<and>
        list_all (\<lambda>a. fit_ge a lo) (take k fits))"


text \<open>
  After the rounds \<open>1, \<dots>, j - 1\<close> of the inner loop of \<^verbatim>\<open>one_plus_lambda\<close>, started in
  the store \<open>w\<close>: the population is the expert followed by the objects created since, the
  objects of \<open>w\<close> are as they were, and \<^verbatim>\<open>best\<close> is the first index of maximal fitness.
\<close>

definition select_inv :: "addr \<Rightarrow> world \<Rightarrow> nat \<Rightarrow> addr list \<times> nat \<times> world \<Rightarrow> bool" where
  "select_inv expert w j s =
     (case s of (population, best, w') \<Rightarrow>
        population = expert # [length (objects w)..<length (objects w) + (j - 1)] \<and>
        length (objects w') = length (objects w) + (j - 1) \<and>
        take (length (objects w)) (objects w') = objects w \<and>
        best < j \<and>
        list_all (\<lambda>r. fit_ge (fitness (objects w' ! (population ! best)))
                          (fitness (objects w' ! r))) population \<and>
        list_all (\<lambda>r. fit_gt (fitness (objects w' ! (population ! best)))
                          (fitness (objects w' ! r))) (take best population))"


text \<open>
  \<open>cs\<close> is a mutant of \<open>gs\<close>: it has the same length, and each gene is the gene of
  \<open>gs\<close> at that place or its negation.
\<close>

definition is_mutant :: "int list \<Rightarrow> int list \<Rightarrow> bool" where
  "is_mutant gs cs = list_all2 (\<lambda>g c. c = g \<or> c = py_not g) gs cs"

text \<open>
  The individual at \<open>r\<close> is an evaluated mutant of the genome \<open>gs\<close>: its genes are an
  array of the store and a mutant of \<open>gs\<close>, and its fitness is the objective's value on
  it (as the objective saw it, with fitness \<^verbatim>\<open>-np.inf\<close>).
\<close>

definition evaluated_mutant :: "objective \<Rightarrow> int list \<Rightarrow> world \<Rightarrow> addr \<Rightarrow> bool" where
  "evaluated_mutant obj gs w r =
     (genes (objects w ! r) < length (arrays w) \<and>
      is_mutant gs (arrays w ! genes (objects w ! r)) \<and>
      fitness (objects w ! r) = Num (obj (arrays w ! genes (objects w ! r)) NegInf))"

text \<open>
  During the inner loop of \<^verbatim>\<open>one_plus_lambda\<close>, started in the store \<open>w\<close>: the arrays of
  \<open>w\<close> are as they were, and every candidate after the expert is an evaluated mutant of
  the expert's genome.
\<close>

definition offspring_inv ::
  "objective \<Rightarrow> addr \<Rightarrow> world \<Rightarrow> addr list \<times> nat \<times> world \<Rightarrow> bool" where
  "offspring_inv obj expert w s =
     (case s of (population, best, w') \<Rightarrow>
        take (length (arrays w)) (arrays w') = arrays w \<and>
        length (arrays w) \<le> length (arrays w') \<and>
        list_all (evaluated_mutant obj (arrays w ! genes (objects w ! expert)) w')
          (tl population))"

section \<open>Two concrete stores\<close>

text \<open>
  An empty store, and a store with one evaluated individual of genome \<open>[0, 1, 1]\<close>. In
  both, the generator will deliver 0-bits, and floats that are below 1/10 at the first and
  the fourth call of \<^verbatim>\<open>rand\<close> only.
\<close>

definition world0 :: world where
  "world0 = \<lparr>arrays = [], objects = [], bit_tape = (\<lambda>i. False),
             unif_tape = (\<lambda>i. if i = 0 \<or> i = 3 then 7/100 else 1/2)\<rparr>"

definition world1 :: world where
  "world1 = \<lparr>arrays = [[0, 1, 1]], objects = [\<lparr>genes = 0, fitness = Num 2\<rparr>],
             bit_tape = (\<lambda>i. False),
             unif_tape = (\<lambda>i. if i = 0 \<or> i = 3 then 7/100 else 1/2)\<rparr>"


text \<open>
  A store with one individual of 20 genes, all 0, as \<^verbatim>\<open>Individual(20)\<close> can create
  it (the notebook's \<^verbatim>\<open>n = 20\<close>); every float of the generator will be 0.07.
\<close>

definition world20 :: world where
  "world20 = \<lparr>arrays = [replicate 20 0], objects = [\<lparr>genes = 0, fitness = NegInf\<rparr>],
              bit_tape = (\<lambda>i. False), unif_tape = (\<lambda>i. 7/100)\<rparr>"

section \<open>Leading ones\<close>

lemma leading_ones_loop_no_zero:
  "\<forall>i\<in>set js. gs ! i \<noteq> 0 \<Longrightarrow> leading_ones_loop gs js f = f"
  by (induction js) simp_all

lemma leading_ones_loop_first_zero:
  "\<forall>k\<in>set js. gs ! k \<noteq> 0 \<Longrightarrow> gs ! i = 0 \<Longrightarrow>
     leading_ones_loop gs (js @ i # ks) f = int i"
  by (induction js) simp_all

text \<open>Where the genome has a 0, the result is the index of the first one.\<close>

lemma leading_ones_first_zero:
  assumes "i < length gs" "gs ! i = 0" "\<forall>j<i. gs ! j \<noteq> 0"
  shows "leading_ones gs fitn = int i"
proof -
  have "[0..<length gs] = [0..<i] @ i # [Suc i..<length gs]"
    using assms(1) by (metis less_imp_le_nat upt_add_eq_append upt_conv_Cons
        le_add_diff_inverse zero_le)
  then show ?thesis
    using assms(2,3) by (simp add: leading_ones_def leading_ones_loop_first_zero)
qed

text \<open>Where it has none, the loop never assigns \<open>f\<close> and the result is the initial 0.\<close>

lemma leading_ones_no_zero:
  "\<forall>g\<in>set gs. g \<noteq> 0 \<Longrightarrow> leading_ones gs fitn = 0"
  by (simp add: leading_ones_def leading_ones_loop_no_zero)

text \<open>
  C1: \<^verbatim>\<open>leading_ones\<close> is claimed to return the genome length on a genome without a
  0-bit. On the all-ones genome of length 3 the code returns 0, not 3, and so it does on
  the all-ones genome of every length: the loop ends without ever reaching
  \<^verbatim>\<open>f = i\<close>, and \<^verbatim>\<open>f\<close> still holds its initial value.
\<close>

theorem leading_ones_all_ones_is_zero:
  "leading_ones [1, 1, 1] NegInf = 0 \<and> leading_ones (replicate n 1) fitn = 0"
proof
  show "leading_ones [1, 1, 1] NegInf = 0"
    by (rule leading_ones_no_zero) simp
  show "leading_ones (replicate n 1) fitn = 0"
    by (rule leading_ones_no_zero) simp
qed

text \<open>The other two results that the specification lists are what the code returns.\<close>

lemma leading_ones_examples:
  "leading_ones [1, 1, 1, 0, 1] fitn = 3" "leading_ones (0 # gs) fitn = 0"
proof -
  show "leading_ones [1, 1, 1, 0, 1] fitn = 3"
    using leading_ones_first_zero [of 3 "[1, 1, 1, 0, 1]" fitn]
    by (simp add: less_Suc_eq numeral_3_eq_3)
  show "leading_ones (0 # gs) fitn = 0"
    using leading_ones_first_zero [of 0 "0 # gs" fitn] by simp
qed

section \<open>What a mutation does to the store\<close>

text \<open>
  The loop of \<^verbatim>\<open>mutate\<close> touches one array and the generator; it creates nothing and
  changes no object.
\<close>

lemma mutate_step_objects [simp]: "objects (mutate_step ind d rate i w) = objects w"
  by (simp add: mutate_step_def rand_def)

lemma mutate_step_bit_tape [simp]: "bit_tape (mutate_step ind d rate i w) = bit_tape w"
  by (simp add: mutate_step_def rand_def)

lemma mutate_loop_objects [simp]: "objects (fold (mutate_step ind d rate) js w) = objects w"
  by (induction js arbitrary: w) simp_all

lemma mutate_loop_bit_tape [simp]: "bit_tape (fold (mutate_step ind d rate) js w) = bit_tape w"
  by (induction js arbitrary: w) simp_all

lemma mutate_step_length_arrays [simp]:
  "length (arrays (mutate_step ind d rate i w)) = length (arrays w)"
  by (simp add: mutate_step_def rand_def)

lemma mutate_loop_length_arrays [simp]:
  "length (arrays (fold (mutate_step ind d rate) js w)) = length (arrays w)"
  by (induction js arbitrary: w) simp_all

lemma mutate_fst: "fst (mutate ind rate w) = length (objects w)"
  by (simp add: mutate_def np_copy_def new_array_def Individual_init_def randint_def
      split_def Let_def)

lemma mutate_objects:
  "objects (snd (mutate ind rate w)) =
     objects w @ [\<lparr>genes = length (arrays w), fitness = NegInf\<rparr>]"
  by (simp add: mutate_def np_copy_def new_array_def Individual_init_def randint_def
      split_def Let_def)

text \<open>
  After the rounds \<open>0, \<dots>, k - 1\<close> on the array at \<open>d\<close>, which is not the parent's own
  array: the first \<open>k\<close> genes are negated where the draw was below the rate, and \<open>k\<close>
  draws are used up.
\<close>

lemma mutate_loop_arrays:
  assumes "k \<le> length (arrays w ! d)" "d < length (arrays w)"
    "genes (objects w ! ind) \<noteq> d"
  shows "fold (mutate_step ind d rate) [0..<k] w =
     w\<lparr>arrays := (arrays w)[d := map (\<lambda>i. if i < k \<and> unif_tape w i < rate
                                   then py_not (arrays w ! genes (objects w ! ind) ! i)
                                   else arrays w ! d ! i) [0..<length (arrays w ! d)]],
       unif_tape := \<lambda>i. unif_tape w (i + k)\<rparr>"
  using assms(1)
proof (induction k)
  case 0
  show ?case by (simp add: map_nth)
next
  case (Suc k)
  let ?s = "genes (objects w ! ind)"
  let ?A = "\<lambda>k. map (\<lambda>i. if i < k \<and> unif_tape w i < rate then py_not (arrays w ! ?s ! i)
                        else arrays w ! d ! i) [0..<length (arrays w ! d)]"
  have k: "k < length (arrays w ! d)" using Suc.prems by simp
  have step: "(?A k)[k := py_not (arrays w ! ?s ! k)] = ?A (Suc k)" if "unif_tape w k < rate"
    using that k by (auto intro!: nth_equalityI simp: nth_list_update less_Suc_eq)
  have keep: "?A k = ?A (Suc k)" if "\<not> unif_tape w k < rate"
    using that by (auto simp: less_Suc_eq)
  have IH: "fold (mutate_step ind d rate) [0..<k] w =
     w\<lparr>arrays := (arrays w)[d := ?A k], unif_tape := \<lambda>i. unif_tape w (i + k)\<rparr>"
    using Suc.IH k by simp
  have "fold (mutate_step ind d rate) [0..<Suc k] w =
          mutate_step ind d rate k (fold (mutate_step ind d rate) [0..<k] w)"
    by simp
  also have "\<dots> = mutate_step ind d rate k
     (w\<lparr>arrays := (arrays w)[d := ?A k], unif_tape := \<lambda>i. unif_tape w (i + k)\<rparr>)"
    by (simp only: IH)
  also have "\<dots> = w\<lparr>arrays := (arrays w)[d := ?A (Suc k)],
                       unif_tape := \<lambda>i. unif_tape w (i + Suc k)\<rparr>"
  proof (cases "unif_tape w k < rate")
    case True
    show ?thesis
      unfolding step [OF True, symmetric]
      using True k assms(2,3) by (simp add: mutate_step_def rand_def Let_def)
  next
    case False
    show ?thesis
      unfolding keep [OF False, symmetric]
      using False k assms(2,3) by (simp add: mutate_step_def rand_def Let_def)
  qed
  finally show ?case .
qed

text \<open>
  The whole call, for a parent whose genes are an array of the store: two new arrays (the
  mutated copy, and the random array that \<^verbatim>\<open>Individual\<close> draws and the assignment to
  \<^verbatim>\<open>child.genes\<close> drops), one new object, and as many draws and bits used up as the
  genome is long.
\<close>

lemma mutate_result:
  assumes src: "genes (objects w ! ind) < length (arrays w)"
  shows "mutate ind rate w =
    (length (objects w),
     w\<lparr>arrays := arrays w @
          [map (\<lambda>i. if unif_tape w i < rate
                    then py_not (arrays w ! genes (objects w ! ind) ! i)
                    else arrays w ! genes (objects w ! ind) ! i)
             [0..<length (arrays w ! genes (objects w ! ind))],
           map (\<lambda>i. if bit_tape w i then 1 else 0)
             [0..<length (arrays w ! genes (objects w ! ind))]],
       objects := objects w @ [\<lparr>genes = length (arrays w), fitness = NegInf\<rparr>],
       bit_tape := \<lambda>i. bit_tape w (i + length (arrays w ! genes (objects w ! ind))),
       unif_tape := \<lambda>i. unif_tape w (i + length (arrays w ! genes (objects w ! ind)))\<rparr>)"
proof -
  let ?s = "genes (objects w ! ind)"
  let ?gs = "arrays w ! ?s"
  let ?d = "length (arrays w)"
  let ?w1 = "w\<lparr>arrays := arrays w @ [?gs]\<rparr>"
  have copy: "np_copy ?s w = (?d, ?w1)"
    by (simp add: np_copy_def new_array_def)
  have len: "length (arrays ?w1 ! ?d) = length ?gs" by simp
  have loop: "fold (mutate_step ind ?d rate) [0..<length ?gs] ?w1 =
     ?w1\<lparr>arrays := (arrays ?w1)[?d := map (\<lambda>i. if i < length ?gs \<and> unif_tape ?w1 i < rate
                                   then py_not (arrays ?w1 ! genes (objects ?w1 ! ind) ! i)
                                   else arrays ?w1 ! ?d ! i) [0..<length (arrays ?w1 ! ?d)]],
       unif_tape := \<lambda>i. unif_tape ?w1 (i + length ?gs)\<rparr>"
    by (rule mutate_loop_arrays) (use src in simp_all)
  have m: "map (\<lambda>i. if i < length ?gs \<and> unif_tape ?w1 i < rate
                  then py_not (arrays ?w1 ! genes (objects ?w1 ! ind) ! i)
                  else arrays ?w1 ! ?d ! i) [0..<length (arrays ?w1 ! ?d)] =
           map (\<lambda>i. if unif_tape w i < rate then py_not (?gs ! i) else ?gs ! i) [0..<length ?gs]"
    using src by (simp add: nth_append)
  show ?thesis
    unfolding mutate_def copy
    using src
    by (simp add: len loop m Individual_init_def randint_def new_array_def Let_def nth_append)
qed



section \<open>Fitness comparison, loops and evaluation\<close>

lemma fit_ge_refl [simp]: "fit_ge a a"
  by (cases a) simp_all

lemma fit_ge_trans: "fit_ge a b \<Longrightarrow> fit_ge b c \<Longrightarrow> fit_ge a c"
  by (cases a; cases b; cases c) simp_all

lemma fit_gt_imp_ge: "fit_gt a b \<Longrightarrow> fit_ge a b"
  by (cases a; cases b) simp_all

lemma not_fit_gt_iff: "\<not> fit_gt a b \<longleftrightarrow> fit_ge b a"
  by (cases a; cases b) auto

lemma fit_gt_ge_trans: "fit_gt a b \<Longrightarrow> fit_ge b c \<Longrightarrow> fit_gt a c"
  by (cases a; cases b; cases c) simp_all

text \<open>An invariant of a loop over \<^verbatim>\<open>range(m, n)\<close>.\<close>

lemma fold_upt_invariant:
  assumes "P m s" "m \<le> n"
    and "\<And>k s. m \<le> k \<Longrightarrow> k < n \<Longrightarrow> P k s \<Longrightarrow> P (Suc k) (f k s)"
  shows "P n (fold f [m..<n] s)"
  using assms(2,3)
proof (induction n)
  case 0
  then show ?case using assms(1) by simp
next
  case (Suc n)
  show ?case
  proof (cases "m = Suc n")
    case True
    then show ?thesis using assms(1) by simp
  next
    case False
    then have mn: "m \<le> n" using Suc.prems(1) by simp
    have "P n (fold f [m..<n] s)"
      by (rule Suc.IH [OF mn]) (simp add: Suc.prems(2))
    then have "P (Suc n) (f n (fold f [m..<n] s))"
      using Suc.prems(2) mn by simp
    then show ?thesis using mn by simp
  qed
qed

lemma evaluate_fst [simp]: "fst (evaluate ind obj w) = None"
  by (simp add: evaluate_def Let_def)

lemma evaluate_objects:
  "objects (snd (evaluate ind obj w)) =
     (objects w)[ind := (objects w ! ind)
        \<lparr>fitness := Num (obj (arrays w ! genes (objects w ! ind)) (fitness (objects w ! ind)))\<rparr>]"
  by (simp add: evaluate_def Let_def)

lemma evaluate_arrays [simp]: "arrays (snd (evaluate ind obj w)) = arrays w"
  by (simp add: evaluate_def Let_def)

lemma evaluate_bit_tape [simp]: "bit_tape (snd (evaluate ind obj w)) = bit_tape w"
  by (simp add: evaluate_def Let_def)

lemma evaluate_unif_tape [simp]: "unif_tape (snd (evaluate ind obj w)) = unif_tape w"
  by (simp add: evaluate_def Let_def)

text \<open>A child that has been created and evaluated: the one new object of the store.\<close>

lemma offspring_objects:
  "\<exists>v. objects (snd (evaluate (fst (mutate ind rate w)) obj (snd (mutate ind rate w)))) =
     objects w @ [\<lparr>genes = length (arrays w), fitness = Num v\<rparr>]"
  by (simp add: evaluate_objects mutate_fst mutate_objects)

lemma opo_generation_step:
  assumes "parent < length (objects w)"
  shows "\<exists>parent' w'. opo_generation obj i (parent, fits, w) =
            (parent', fits[i := fitness (objects w' ! parent')], w') \<and>
          parent' < length (objects w') \<and>
          fit_ge (fitness (objects w' ! parent')) (fitness (objects w ! parent))"
proof -
  let ?m = "mutate parent default_mutation_rate w"
  let ?w2 = "snd (evaluate (length (objects w)) obj (snd ?m))"
  obtain v where ob: "objects ?w2 = objects w @ [\<lparr>genes = length (arrays w), fitness = Num v\<rparr>]"
    using offspring_objects [of parent default_mutation_rate w obj] by (auto simp: mutate_fst)
  have child: "fst ?m = length (objects w)" by (rule mutate_fst)
  have old: "objects ?w2 ! parent = objects w ! parent"
    using assms by (simp add: ob nth_append)
  have new: "objects ?w2 ! length (objects w) = \<lparr>genes = length (arrays w), fitness = Num v\<rparr>"
    by (simp add: ob)
  let ?p = "if fit_ge (Num v) (fitness (objects w ! parent)) then length (objects w) else parent"
  have "opo_generation obj i (parent, fits, w) = (?p, fits[i := fitness (objects ?w2 ! ?p)], ?w2)"
    by (simp add: opo_generation_def mutate_default_def split_def Let_def child old new)
  moreover have "?p < length (objects ?w2)"
    using assms by (simp add: ob)
  moreover have "fit_ge (fitness (objects ?w2 ! ?p)) (fitness (objects w ! parent))"
    by (simp add: old new)
  ultimately show ?thesis by blast
qed

lemma trace_inv_step:
  assumes inv: "trace_inv lo g k (cur, fits, w)" and k: "k < g"
    and st: "cur' < length (objects w')"
      "fit_ge (fitness (objects w' ! cur')) (fitness (objects w ! cur))"
  shows "trace_inv lo g (Suc k) (cur', fits[k := fitness (objects w' ! cur')], w')"
proof -
  let ?f = "fitness (objects w' ! cur')"
  have len: "length fits = g" using inv by (simp add: trace_inv_def)
  have tk: "take (Suc k) (fits[k := ?f]) = take k fits @ [?f]"
    using k len by (simp add: take_Suc_conv_app_nth)
  have below: "list_all (\<lambda>a. fit_ge ?f a) (take k fits)"
    using inv st(2) by (auto simp: trace_inv_def list_all_iff intro: fit_ge_trans)
  have lo: "fit_ge ?f lo"
    using inv st(2) by (auto simp: trace_inv_def intro: fit_ge_trans)
  show ?thesis
    using inv st(1) below lo
    by (simp add: trace_inv_def tk sorted_wrt_append list_all_iff)
qed

lemma opo_generation_inv:
  assumes "trace_inv lo g k s" "k < g"
  shows "trace_inv lo g (Suc k) (opo_generation obj k s)"
proof -
  obtain cur fits w where s: "s = (cur, fits, w)" by (cases s)
  have cur: "cur < length (objects w)" using assms(1) by (simp add: s trace_inv_def)
  from opo_generation_step [OF cur, of obj k fits]
  obtain cur' w' where r: "opo_generation obj k (cur, fits, w) =
            (cur', fits[k := fitness (objects w' ! cur')], w')"
      "cur' < length (objects w')"
      "fit_ge (fitness (objects w' ! cur')) (fitness (objects w ! cur))"
    by blast
  show ?thesis
    unfolding s r(1) using assms r(2,3) by (intro trace_inv_step) (simp_all add: s)
qed

lemma Individual_init_fst: "fst (Individual_init n w) = length (objects w)"
  by (simp add: Individual_init_def randint_def new_array_def split_def Let_def)

lemma Individual_init_objects:
  "objects (snd (Individual_init n w)) = objects w @ [\<lparr>genes = length (arrays w), fitness = NegInf\<rparr>]"
  by (simp add: Individual_init_def randint_def new_array_def split_def Let_def)

lemma Individual_init_arrays:
  "arrays (snd (Individual_init n w)) =
     arrays w @ [map (\<lambda>i. if bit_tape w i then 1 else 0) [0..<n]]"
  by (simp add: Individual_init_def randint_def new_array_def split_def Let_def)

lemma trace_inv_start:
  "trace_inv
     (fitness (objects (snd (evaluate (length (objects w)) obj (snd (Individual_init n w)))) !
        length (objects w)))
     g 0
     (length (objects w), replicate g (Num 0),
      snd (evaluate (length (objects w)) obj (snd (Individual_init n w))))"
  by (simp add: trace_inv_def evaluate_objects Individual_init_objects)

lemma trace_inv_end:
  assumes "trace_inv lo g g (cur, fits, w)"
  shows "length fits = g \<and> sorted_wrt (\<lambda>a b. fit_ge b a) fits \<and>
         list_all (\<lambda>a. fit_ge a lo) fits"
  using assms by (auto simp: trace_inv_def)

text \<open>
  A call of \<^verbatim>\<open>one_plus_one\<close> with a length and a number of generations that numpy
  accepts returns; the trace has one entry per generation, is non-decreasing and never
  below the fitness of the first, random, parent.
\<close>

lemma one_plus_one_trace:
  assumes "0 \<le> ind_length" "0 \<le> num_generations"
  shows "\<exists>fits w'. one_plus_one ind_length num_generations objective w = Inr (fits, w') \<and>
           length fits = nat num_generations \<and>
           sorted_wrt (\<lambda>a b. fit_ge b a) fits \<and>
           list_all (\<lambda>a. fit_ge a
              (fitness (objects (snd (evaluate (length (objects w)) objective
                  (snd (Individual_init (nat ind_length) w)))) ! length (objects w)))) fits"
proof -
  let ?g = "nat num_generations"
  let ?i = "Individual_init (nat ind_length) w"
  let ?s0 = "(length (objects w), replicate ?g (Num 0),
      snd (evaluate (length (objects w)) objective (snd ?i)))"
  let ?r = "fold (opo_generation objective) [0..<?g] ?s0"
  let ?lo = "fitness (objects (snd (evaluate (length (objects w)) objective (snd ?i))) !
                length (objects w))"
  have "trace_inv ?lo ?g ?g ?r"
    by (rule fold_upt_invariant [where P = "trace_inv ?lo ?g"])
      (simp_all add: trace_inv_start opo_generation_inv)
  then have "length (fst (snd ?r)) = ?g \<and> sorted_wrt (\<lambda>a b. fit_ge b a) (fst (snd ?r)) \<and>
      list_all (\<lambda>a. fit_ge a ?lo) (fst (snd ?r))"
    by (cases ?r) (simp add: trace_inv_end)
  moreover have "one_plus_one ind_length num_generations objective w =
      Inr (fst (snd ?r), snd (snd ?r))"
    using assms
    by (simp add: one_plus_one_def Individual_def Individual_init_fst split_def Let_def)
  ultimately show ?thesis by blast
qed

text \<open>
  What one generation of \<^verbatim>\<open>one_plus_one\<close> does with the parent: the child replaces it
  exactly when the child's fitness is \<^verbatim>\<open>>=\<close> the parent's.
\<close>

lemma opo_generation_accept:
  "fst (opo_generation obj i (parent, fits, w)) =
     (let w2 = snd (evaluate (length (objects w)) obj (snd (mutate_default parent w)))
      in if fit_ge (fitness (objects w2 ! length (objects w))) (fitness (objects w2 ! parent))
         then length (objects w) else parent)"
  by (simp add: opo_generation_def mutate_default_def mutate_fst split_def Let_def)

text \<open>
  C3: for every genome length above 0, every number of generations and every objective,
  \<^verbatim>\<open>one_plus_one\<close> fails only for a negative number of generations (where
  \<^verbatim>\<open>np.zeros\<close> raises), and otherwise returns one fitness per generation, in
  non-decreasing order.
\<close>

theorem one_plus_one_nondecreasing:
  assumes "0 < ind_length"
  shows "case one_plus_one ind_length num_generations objective w of
           Inl e \<Rightarrow> num_generations < 0
         | Inr (fits, w') \<Rightarrow>
             length fits = nat num_generations \<and> sorted_wrt (\<lambda>a b. fit_ge b a) fits"
proof (cases "num_generations < 0")
  case True
  then show ?thesis by (simp add: one_plus_one_def)
next
  case False
  with assms one_plus_one_trace [of ind_length num_generations objective w]
  show ?thesis by auto
qed

text \<open>A run of two generations on genomes of length 2: the fitness goes from 1 to 2.\<close>

theorem one_plus_one_nondecreasing_witness:
  "(0::int) < 2 \<and>
   (case one_plus_one 2 2 onemax world0 of
      Inl e \<Rightarrow> (2::int) < 0
    | Inr (fits, w') \<Rightarrow> length fits = nat 2 \<and> sorted_wrt (\<lambda>a b. fit_ge b a) fits) \<and>
   map_sum id fst (one_plus_one 2 2 onemax world0) = Inr [Num 1, Num 2]"
proof -
  have h: "(0::int) < 2" by simp
  have e: "map_sum id fst (one_plus_one 2 2 onemax world0) = Inr [Num 1, Num 2]"
    by (simp add: world0_def one_plus_one_def Individual_def Individual_init_def randint_def
        new_array_def evaluate_def onemax_def opo_generation_def mutate_default_def mutate_def
        np_copy_def mutate_step_def rand_def default_mutation_rate_def global_ind_length_def
        py_not_def upt_rec numeral_2_eq_2)
  from h one_plus_one_nondecreasing [OF h, of 2 onemax world0] e show ?thesis
    by blast
qed

section \<open>Mutation: frame and endpoints\<close>

text \<open>
  C4: for every individual of the store and every mutation rate, \<^verbatim>\<open>mutate\<close> leaves the
  parent object (its genes reference and its fitness) and the parent's genes array as they
  were, and changes no other object or array that existed before the call. The child is a
  new object, its fitness is \<^verbatim>\<open>-np.inf\<close> (not evaluated), and its genes are a new
  array, at none of the earlier addresses, that holds the parent's genes with the bit at
  \<open>i\<close> flipped exactly when the \<open>i\<close>-th draw is below the rate.
\<close>

theorem mutate_leaves_parent:
  assumes "ind < length (objects w)" "genes (objects w ! ind) < length (arrays w)"
  shows "case mutate ind mutation_rate w of (child, w') \<Rightarrow>
      objects w' ! ind = objects w ! ind \<and>
      arrays w' ! genes (objects w' ! ind) = arrays w ! genes (objects w ! ind) \<and>
      take (length (objects w)) (objects w') = objects w \<and>
      take (length (arrays w)) (arrays w') = arrays w \<and>
      child = length (objects w) \<and> child < length (objects w') \<and>
      length (arrays w) \<le> genes (objects w' ! child) \<and>
      genes (objects w' ! child) < length (arrays w') \<and>
      fitness (objects w' ! child) = NegInf \<and>
      arrays w' ! genes (objects w' ! child) =
        map (\<lambda>i. if unif_tape w i < mutation_rate
                  then py_not (arrays w ! genes (objects w ! ind) ! i)
                  else arrays w ! genes (objects w ! ind) ! i)
          [0..<length (arrays w ! genes (objects w ! ind))]"
  using assms by (simp add: mutate_result nth_append)

theorem mutate_leaves_parent_witness:
  "(0::nat) < length (objects world1) \<and> genes (objects world1 ! 0) < length (arrays world1) \<and>
   (case mutate 0 (1/3) world1 of (child, w') \<Rightarrow>
      objects w' ! 0 = objects world1 ! 0 \<and>
      arrays w' ! genes (objects w' ! 0) = arrays world1 ! genes (objects world1 ! 0) \<and>
      take (length (objects world1)) (objects w') = objects world1 \<and>
      take (length (arrays world1)) (arrays w') = arrays world1 \<and>
      child = length (objects world1) \<and> child < length (objects w') \<and>
      length (arrays world1) \<le> genes (objects w' ! child) \<and>
      genes (objects w' ! child) < length (arrays w') \<and>
      fitness (objects w' ! child) = NegInf \<and>
      arrays w' ! genes (objects w' ! child) =
        map (\<lambda>i. if unif_tape world1 i < 1/3
                  then py_not (arrays world1 ! genes (objects world1 ! 0) ! i)
                  else arrays world1 ! genes (objects world1 ! 0) ! i)
          [0..<length (arrays world1 ! genes (objects world1 ! 0))]) \<and>
   map (\<lambda>i. if unif_tape world1 i < 1/3
             then py_not (arrays world1 ! genes (objects world1 ! 0) ! i)
             else arrays world1 ! genes (objects world1 ! 0) ! i)
     [0..<length (arrays world1 ! genes (objects world1 ! 0))] = [1, 1, 1]"
proof -
  have h: "(0::nat) < length (objects world1)"
    "genes (objects world1 ! 0) < length (arrays world1)"
    by (simp_all add: world1_def)
  have e: "map (\<lambda>i. if unif_tape world1 i < 1/3
                  then py_not (arrays world1 ! genes (objects world1 ! 0) ! i)
                  else arrays world1 ! genes (objects world1 ! 0) ! i)
          [0..<length (arrays world1 ! genes (objects world1 ! 0))] = [1, 1, 1]"
    by (simp add: world1_def py_not_def upt_rec)
  from h mutate_leaves_parent [OF h, of "1/3"] e show ?thesis
    by blast
qed

text \<open>
  C5: with draws in the range of \<^verbatim>\<open>np.random.rand\<close>, that is in [0, 1), a mutation
  with rate 0 gives the child the parent's genome, and one with rate 1 gives it the genome
  with every gene negated, which for a genome of bits is the bitwise complement.
\<close>

theorem mutate_rate_endpoints:
  assumes "ind < length (objects w)" "genes (objects w ! ind) < length (arrays w)"
    and "\<forall>i. 0 \<le> unif_tape w i \<and> unif_tape w i < 1"
  shows "(case mutate ind 0 w of (child, w') \<Rightarrow>
            arrays w' ! genes (objects w' ! child) = arrays w ! genes (objects w ! ind)) \<and>
         (case mutate ind 1 w of (child, w') \<Rightarrow>
            arrays w' ! genes (objects w' ! child) =
              map py_not (arrays w ! genes (objects w ! ind)) \<and>
            (set (arrays w ! genes (objects w ! ind)) \<subseteq> {0, 1} \<longrightarrow>
               arrays w' ! genes (objects w' ! child) =
                 map (\<lambda>g. 1 - g) (arrays w ! genes (objects w ! ind))))"
proof -
  let ?gs = "arrays w ! genes (objects w ! ind)"
  have never: "\<not> unif_tape w i < 0" for i using assms(3) by (simp add: not_less)
  have always: "unif_tape w i < 1" for i using assms(3) by simp
  have id: "map (\<lambda>i. ?gs ! i) [0..<length ?gs] = ?gs" by (rule map_nth)
  have fl: "map (\<lambda>i. py_not (?gs ! i)) [0..<length ?gs] = map py_not ?gs"
    by (rule nth_equalityI) simp_all
  have bits: "map py_not ?gs = map (\<lambda>g. 1 - g) ?gs" if "set ?gs \<subseteq> {0, 1}"
    using that by (auto simp: py_not_def)
  show ?thesis
    using assms(1,2) bits by (simp add: mutate_result nth_append never always id fl)
qed

theorem mutate_rate_endpoints_witness:
  "(0::nat) < length (objects world1) \<and> genes (objects world1 ! 0) < length (arrays world1) \<and>
   (\<forall>i. 0 \<le> unif_tape world1 i \<and> unif_tape world1 i < 1) \<and>
   (case mutate 0 0 world1 of (child, w') \<Rightarrow>
       arrays w' ! genes (objects w' ! child) = [0, 1, 1]) \<and>
   (case mutate 0 1 world1 of (child, w') \<Rightarrow>
       arrays w' ! genes (objects w' ! child) = [1, 0, 0])"
proof -
  have h: "(0::nat) < length (objects world1)"
    "genes (objects world1 ! 0) < length (arrays world1)"
    "\<forall>i. 0 \<le> unif_tape world1 i \<and> unif_tape world1 i < 1"
    by (simp_all add: world1_def)
  have g: "arrays world1 ! genes (objects world1 ! 0) = [0, 1, 1]"
    by (simp add: world1_def)
  from mutate_rate_endpoints [OF h] have
    "(case mutate 0 0 world1 of (child, w') \<Rightarrow>
       arrays w' ! genes (objects w' ! child) = [0, 1, 1]) \<and>
     (case mutate 0 1 world1 of (child, w') \<Rightarrow>
       arrays w' ! genes (objects w' ! child) = [1, 0, 0])"
    by (simp add: g split_def py_not_def)
  with h show ?thesis by blast
qed

section \<open>Selection in the (1+lambda) algorithm\<close>

text \<open>
  The index \<^verbatim>\<open>best\<close> moves to a new candidate only when that candidate is strictly
  fitter, so it stays the first index of maximal fitness; objects created earlier are not
  touched by the creation and evaluation of a later one.
\<close>

lemma select_invI:
  assumes "population = expert # [length (objects w)..<length (objects w) + (j - 1)]"
    "length (objects w') = length (objects w) + (j - 1)"
    "take (length (objects w)) (objects w') = objects w"
    "best < j"
    "list_all (\<lambda>r. fit_ge (fitness (objects w' ! (population ! best)))
                          (fitness (objects w' ! r))) population"
    "list_all (\<lambda>r. fit_gt (fitness (objects w' ! (population ! best)))
                          (fitness (objects w' ! r))) (take best population)"
  shows "select_inv expert w j (population, best, w')"
  using assms by (simp add: select_inv_def)

lemma offspring_objects_eq:
  "objects (snd (evaluate (length (objects w)) obj (snd (mutate ind rate w)))) =
     objects w @ [\<lparr>genes = length (arrays w),
                   fitness = Num (obj (arrays (snd (mutate ind rate w)) ! length (arrays w)) NegInf)\<rparr>]"
  by (simp add: evaluate_objects mutate_objects)

lemma opl_offspring_result:
  assumes "length population = j" "best < j"
  shows "opl_offspring obj expert j (population, best, w) =
     (population @ [length (objects w)],
      (if fit_gt (fitness (objects (snd (evaluate (length (objects w)) obj
                    (snd (mutate expert default_mutation_rate w)))) ! length (objects w)))
                 (fitness (objects (snd (evaluate (length (objects w)) obj
                    (snd (mutate expert default_mutation_rate w)))) ! (population ! best)))
       then j else best),
      snd (evaluate (length (objects w)) obj (snd (mutate expert default_mutation_rate w))))"
  using assms
  by (simp add: opl_offspring_def mutate_default_def split_def Let_def mutate_fst nth_append)

lemma select_inv_start:
  "select_inv expert w 1 ([expert], 0, w)"
  by (simp add: select_inv_def)

lemma select_inv_step:
  assumes inv: "select_inv expert w j s" and j: "1 \<le> j"
    and ex: "expert < length (objects w)"
  shows "select_inv expert w (Suc j) (opl_offspring obj expert j s)"
proof -
  obtain pop best w' where s: "s = (pop, best, w')" by (cases s)
  let ?l = "length (objects w)"
  let ?w2 = "snd (evaluate (length (objects w')) obj (snd (mutate expert default_mutation_rate w')))"
  let ?v = "obj (arrays (snd (mutate expert default_mutation_rate w')) ! length (arrays w')) NegInf"
  have "pop = expert # [?l..<?l + (j - 1)] \<and>
        length (objects w') = ?l + (j - 1) \<and>
        take ?l (objects w') = objects w \<and>
        best < j \<and>
        list_all (\<lambda>r. fit_ge (fitness (objects w' ! (pop ! best)))
                          (fitness (objects w' ! r))) pop \<and>
        list_all (\<lambda>r. fit_gt (fitness (objects w' ! (pop ! best)))
                          (fitness (objects w' ! r))) (take best pop)"
    by (rule inv [unfolded s select_inv_def prod.case])
  then have pop: "pop = expert # [?l..<?l + (j - 1)]"
    and len': "length (objects w') = ?l + (j - 1)"
    and old: "take ?l (objects w') = objects w"
    and best: "best < j"
    and ge: "list_all (\<lambda>r. fit_ge (fitness (objects w' ! (pop ! best))) (fitness (objects w' ! r))) pop"
    and gt: "list_all (\<lambda>r. fit_gt (fitness (objects w' ! (pop ! best))) (fitness (objects w' ! r)))
               (take best pop)"
    by blast+
  have lp: "length pop = j" using j by (simp add: pop)
  have ob: "objects ?w2 = objects w' @ [\<lparr>genes = length (arrays w'), fitness = Num ?v\<rparr>]"
    by (rule offspring_objects_eq)
  have valid: "r < length (objects w')" if "r \<in> set pop" for r
    using that ex by (auto simp: pop len')
  have keep: "objects ?w2 ! r = objects w' ! r" if "r \<in> set pop" for r
    using valid [OF that] by (simp add: ob nth_append)
  have bestin: "pop ! best \<in> set pop" using best lp by simp
  have new: "fitness (objects ?w2 ! length (objects w')) = Num ?v"
    by (simp add: ob)
  let ?fb = "fitness (objects w' ! (pop ! best))"
  let ?b' = "if fit_gt (Num ?v) ?fb then j else best"
  have res: "opl_offspring obj expert j s = (pop @ [length (objects w')], ?b', ?w2)"
    unfolding s opl_offspring_result [OF lp best] by (simp add: new keep [OF bestin])
  have pop': "pop @ [length (objects w')] = expert # [?l..<?l + (Suc j - 1)]"
    using j by (cases j) (simp_all add: pop len')
  have len2: "length (objects ?w2) = ?l + (Suc j - 1)"
    unfolding ob using j len' by simp
  have old2: "take ?l (objects ?w2) = objects w"
    unfolding ob using old len' by simp
  have ge_old: "fit_ge ?fb (fitness (objects w' ! r))" if "r \<in> set pop" for r
    using ge that by (simp add: list_all_iff)
  let ?c = "length (objects w')"
  have nthj: "(pop @ [?c]) ! j = ?c" by (simp add: lp [symmetric])
  have takej: "take j (pop @ [?c]) = pop" by (simp add: lp [symmetric])
  have nthb: "(pop @ [?c]) ! best = pop ! best" using lp best by (simp add: nth_append)
  have takeb: "take best (pop @ [?c]) = take best pop" using lp best by simp
  show ?thesis
  proof (cases "fit_gt (Num ?v) ?fb")
    case True
    have r: "opl_offspring obj expert j s = (pop @ [?c], j, ?w2)"
      using True by (simp add: res)
    have a: "list_all (\<lambda>r. fit_ge (fitness (objects ?w2 ! ((pop @ [?c]) ! j)))
                           (fitness (objects ?w2 ! r))) (pop @ [?c])"
      unfolding nthj new using True ge_old
      by (auto simp: list_all_iff keep new intro: fit_ge_trans fit_gt_imp_ge)
    have b: "list_all (\<lambda>r. fit_gt (fitness (objects ?w2 ! ((pop @ [?c]) ! j)))
                           (fitness (objects ?w2 ! r))) (take j (pop @ [?c]))"
      unfolding nthj new takej using True ge_old
      by (auto simp: list_all_iff keep intro: fit_gt_ge_trans)
    show ?thesis
      unfolding r by (rule select_invI [OF pop' len2 old2 _ a b]) simp
  next
    case False
    then have le: "fit_ge ?fb (Num ?v)" by (simp add: not_fit_gt_iff)
    have r: "opl_offspring obj expert j s = (pop @ [?c], best, ?w2)"
      using False by (simp add: res)
    have a: "list_all (\<lambda>r. fit_ge (fitness (objects ?w2 ! ((pop @ [?c]) ! best)))
                           (fitness (objects ?w2 ! r))) (pop @ [?c])"
      unfolding nthb keep [OF bestin] using le ge_old
      by (auto simp: list_all_iff keep new)
    have b: "list_all (\<lambda>r. fit_gt (fitness (objects ?w2 ! ((pop @ [?c]) ! best)))
                           (fitness (objects ?w2 ! r))) (take best (pop @ [?c]))"
      unfolding nthb keep [OF bestin] takeb using gt
      by (auto simp: list_all_iff keep [OF in_set_takeD])
    show ?thesis
      unfolding r using best by (intro select_invI [OF pop' len2 old2 _ a b]) simp
  qed
qed

lemma opl_select_inv:
  assumes "expert < length (objects w)"
  shows "select_inv expert w (max 1 (nat lam)) (opl_select obj lam expert w)"
proof (cases "1 \<le> nat lam")
  case True
  have "select_inv expert w (nat lam) (fold (opl_offspring obj expert) [1..<nat lam] ([expert], 0, w))"
  proof (rule fold_upt_invariant [where P = "select_inv expert w"])
    show "select_inv expert w 1 ([expert], 0, w)" by (rule select_inv_start)
    show "1 \<le> nat lam" by (rule True)
    fix k s assume "1 \<le> k" "k < nat lam" "select_inv expert w k s"
    then show "select_inv expert w (Suc k) (opl_offspring obj expert k s)"
      using assms by (intro select_inv_step)
  qed
  then show ?thesis using True by (simp add: opl_select_def max_def)
next
  case False
  then show ?thesis
    using select_inv_start [of expert w] by (simp add: opl_select_def max_def)
qed

lemma select_inv_facts:
  assumes inv: "select_inv expert w j (population, best, w')" and j: "1 \<le> j"
    and ex: "expert < length (objects w)"
  shows "length population = j" "population ! 0 = expert" "best < length population"
    "population ! best < length (objects w')"
    "objects w' ! expert = objects w ! expert"
    "fit_ge (fitness (objects w' ! (population ! best))) (fitness (objects w' ! expert))"
    "\<forall>k<length population. fit_ge (fitness (objects w' ! (population ! best)))
                                      (fitness (objects w' ! (population ! k)))"
    "\<forall>k<best. fit_gt (fitness (objects w' ! (population ! best)))
                        (fitness (objects w' ! (population ! k)))"
    "population = expert # [length (objects w)..<length (objects w) + (j - 1)]"
    "length (objects w') = length (objects w) + (j - 1)"
    "list_all (\<lambda>r. r < length (objects w')) population"
proof -
  let ?l = "length (objects w)"
  have "population = expert # [?l..<?l + (j - 1)] \<and>
        length (objects w') = ?l + (j - 1) \<and>
        take ?l (objects w') = objects w \<and>
        best < j \<and>
        list_all (\<lambda>r. fit_ge (fitness (objects w' ! (population ! best)))
                          (fitness (objects w' ! r))) population \<and>
        list_all (\<lambda>r. fit_gt (fitness (objects w' ! (population ! best)))
                          (fitness (objects w' ! r))) (take best population)"
    by (rule inv [unfolded select_inv_def prod.case])
  then have pop: "population = expert # [?l..<?l + (j - 1)]"
    and len': "length (objects w') = ?l + (j - 1)"
    and old: "take ?l (objects w') = objects w"
    and best: "best < j"
    and ge: "list_all (\<lambda>r. fit_ge (fitness (objects w' ! (population ! best)))
                          (fitness (objects w' ! r))) population"
    and gt: "list_all (\<lambda>r. fit_gt (fitness (objects w' ! (population ! best)))
                          (fitness (objects w' ! r))) (take best population)"
    by blast+
  show lp: "length population = j" using j by (simp add: pop)
  show p0: "population ! 0 = expert" by (simp add: pop)
  show bl: "best < length population" using best lp by simp
  have "population ! best \<in> set population" using bl by simp
  then show "population ! best < length (objects w')"
    using ex by (auto simp: pop len')
  have "objects w' ! expert = take ?l (objects w') ! expert"
    using ex by simp
  then show "objects w' ! expert = objects w ! expert" by (simp add: old)
  have "expert \<in> set population" by (simp add: pop)
  then show "fit_ge (fitness (objects w' ! (population ! best))) (fitness (objects w' ! expert))"
    using ge by (simp add: list_all_iff)
  show "\<forall>k<length population. fit_ge (fitness (objects w' ! (population ! best)))
                                      (fitness (objects w' ! (population ! k)))"
    using ge by (simp add: list_all_length)
  show "\<forall>k<best. fit_gt (fitness (objects w' ! (population ! best)))
                        (fitness (objects w' ! (population ! k)))"
    using gt bl by (simp add: list_all_length)
  show "population = expert # [?l..<?l + (j - 1)]" by (rule pop)
  show "length (objects w') = ?l + (j - 1)" by (rule len')
  show "list_all (\<lambda>r. r < length (objects w')) population"
    using ex by (auto simp: pop len' list_all_iff)
qed

lemma opl_generation_step:
  assumes "expert < length (objects w)"
  shows "\<exists>expert' w'. opl_generation obj lam i (expert, fits, w) =
            (expert', fits[i := fitness (objects w' ! expert')], w') \<and>
          expert' < length (objects w') \<and>
          fit_ge (fitness (objects w' ! expert')) (fitness (objects w ! expert))"
proof -
  obtain pop best w1 where sel: "opl_select obj lam expert w = (pop, best, w1)"
    by (cases "opl_select obj lam expert w")
  have inv: "select_inv expert w (max 1 (nat lam)) (pop, best, w1)"
    using opl_select_inv [OF assms, of lam obj] by (simp add: sel)
  note f = select_inv_facts [OF inv _ assms]
  have ge: "fit_ge (fitness (objects w1 ! (pop ! best))) (fitness (objects w1 ! expert))"
    by (rule f(6)) simp
  have "opl_generation obj lam i (expert, fits, w) =
          (pop ! best, fits[i := fitness (objects w1 ! (pop ! best))], w1)"
    using ge by (simp add: opl_generation_def sel Let_def)
  moreover have "pop ! best < length (objects w1)" by (rule f(4)) simp
  moreover have "fit_ge (fitness (objects w1 ! (pop ! best))) (fitness (objects w ! expert))"
    using ge f(5) by simp
  ultimately show ?thesis by blast
qed

lemma opl_generation_inv:
  assumes "trace_inv lo g k s" "k < g"
  shows "trace_inv lo g (Suc k) (opl_generation obj lam k s)"
proof -
  obtain cur fits w where s: "s = (cur, fits, w)" by (cases s)
  have cur: "cur < length (objects w)" using assms(1) by (simp add: s trace_inv_def)
  from opl_generation_step [OF cur, of obj lam k fits]
  obtain cur' w' where r: "opl_generation obj lam k (cur, fits, w) =
            (cur', fits[k := fitness (objects w' ! cur')], w')"
      "cur' < length (objects w')"
      "fit_ge (fitness (objects w' ! cur')) (fitness (objects w ! cur))"
    by blast
  show ?thesis
    unfolding s r(1) using assms r(2,3) by (intro trace_inv_step) (simp_all add: s)
qed

lemma one_plus_lambda_trace:
  "case one_plus_lambda ind_length num_generations objective lam w of
     Inl e \<Rightarrow> ind_length < 0 \<or> num_generations < 0
   | Inr (fits, w') \<Rightarrow>
       length fits = nat num_generations \<and> sorted_wrt (\<lambda>a b. fit_ge b a) fits"
proof (cases "num_generations < 0 \<or> ind_length < 0")
  case True
  then show ?thesis by (auto simp: one_plus_lambda_def Individual_def)
next
  case False
  let ?g = "nat num_generations"
  let ?i = "Individual_init (nat ind_length) w"
  let ?s0 = "(length (objects w), replicate ?g (Num 0),
      snd (evaluate (length (objects w)) objective (snd ?i)))"
  let ?r = "fold (opl_generation objective lam) [0..<?g] ?s0"
  let ?lo = "fitness (objects (snd (evaluate (length (objects w)) objective (snd ?i))) !
                length (objects w))"
  have "trace_inv ?lo ?g ?g ?r"
    by (rule fold_upt_invariant [where P = "trace_inv ?lo ?g"])
      (simp_all add: trace_inv_start opl_generation_inv)
  then have "length (fst (snd ?r)) = ?g \<and> sorted_wrt (\<lambda>a b. fit_ge b a) (fst (snd ?r))"
    by (cases ?r) (simp add: trace_inv_end)
  then show ?thesis
    using False
    by (simp add: one_plus_lambda_def Individual_def Individual_init_fst split_def Let_def)
qed

text \<open>
  C10: in a generation of \<^verbatim>\<open>one_plus_lambda\<close> that starts with an expert of the store,
  the population's element 0 is the expert, the fitness of the selected candidate is
  \<^verbatim>\<open>>=\<close> the expert's, so the guard holds and the expert becomes that candidate; and
  the sequence that \<^verbatim>\<open>one_plus_lambda\<close> returns is non-decreasing (the call fails only
  where numpy rejects a negative length or number of generations).
\<close>

theorem one_plus_lambda_best_accepted:
  assumes "expert < length (objects w)"
  shows "(case opl_select objective lam expert w of (population, best, w1) \<Rightarrow>
            population ! 0 = expert \<and> best < length population \<and>
            fit_ge (fitness (objects w1 ! (population ! best))) (fitness (objects w1 ! expert)) \<and>
            opl_generation objective lam i (expert, fits, w) =
              (population ! best, fits[i := fitness (objects w1 ! (population ! best))], w1)) \<and>
         (case one_plus_lambda ind_length num_generations objective lam w0 of
            Inl e \<Rightarrow> ind_length < 0 \<or> num_generations < 0
          | Inr (trace, w') \<Rightarrow>
              length trace = nat num_generations \<and> sorted_wrt (\<lambda>a b. fit_ge b a) trace)"
proof -
  obtain pop best w1 where sel: "opl_select objective lam expert w = (pop, best, w1)"
    by (cases "opl_select objective lam expert w")
  have inv: "select_inv expert w (max 1 (nat lam)) (pop, best, w1)"
    using opl_select_inv [OF assms, of lam objective] by (simp add: sel)
  note f = select_inv_facts [OF inv _ assms]
  have ge: "fit_ge (fitness (objects w1 ! (pop ! best))) (fitness (objects w1 ! expert))"
    by (rule f(6)) simp
  have gen: "opl_generation objective lam i (expert, fits, w) =
          (pop ! best, fits[i := fitness (objects w1 ! (pop ! best))], w1)"
    using ge by (simp add: opl_generation_def sel Let_def)
  have p0: "pop ! 0 = expert" by (rule f(2)) simp
  have bl: "best < length pop" by (rule f(3)) simp
  show ?thesis
    using p0 bl ge gen one_plus_lambda_trace [of ind_length num_generations objective lam w0]
    by (simp add: sel)
qed


theorem one_plus_lambda_best_accepted_witness:
  "(0::nat) < length (objects world1) \<and>
   (case opl_select onemax 3 0 world1 of (population, best, w1) \<Rightarrow>
      population ! 0 = 0 \<and> best < length population \<and>
      fit_ge (fitness (objects w1 ! (population ! best))) (fitness (objects w1 ! 0)) \<and>
      opl_generation onemax 3 0 (0, [Num 0], world1) =
        (population ! best, [Num 0][0 := fitness (objects w1 ! (population ! best))], w1)) \<and>
   (case one_plus_lambda 2 2 onemax 3 world0 of
      Inl e \<Rightarrow> (2::int) < 0 \<or> (2::int) < 0
    | Inr (trace, w') \<Rightarrow>
        length trace = nat 2 \<and> sorted_wrt (\<lambda>a b. fit_ge b a) trace)"
proof -
  have h: "(0::nat) < length (objects world1)" by (simp add: world1_def)
  from h one_plus_lambda_best_accepted [OF h, of onemax 3 0 "[Num 0]" 2 2 world0]
  show ?thesis by blast
qed

section \<open>The offspring of one generation\<close>

lemma is_mutant_flips:
  "is_mutant gs (map (\<lambda>i. if P i then py_not (gs ! i) else gs ! i) [0..<length gs])"
  by (simp add: is_mutant_def list_all2_conv_all_nth)

lemma offspring_inv_start: "offspring_inv obj expert w ([expert], 0, w)"
  by (simp add: offspring_inv_def)

lemma offspring_inv_step:
  assumes sel: "select_inv expert w j s" and inv: "offspring_inv obj expert w s"
    and j: "1 \<le> j"
    and ex: "expert < length (objects w)" "genes (objects w ! expert) < length (arrays w)"
  shows "offspring_inv obj expert w (opl_offspring obj expert j s)"
proof -
  obtain pop best w' where s: "s = (pop, best, w')" by (cases s)
  let ?gs = "arrays w ! genes (objects w ! expert)"
  let ?m = "mutate expert default_mutation_rate w'"
  let ?c = "length (objects w')"
  let ?w2 = "snd (evaluate ?c obj (snd ?m))"
  note f = select_inv_facts [OF sel [unfolded s] j ex(1)]
  have "take (length (arrays w)) (arrays w') = arrays w \<and>
        length (arrays w) \<le> length (arrays w') \<and>
        list_all (evaluated_mutant obj ?gs w') (tl pop)"
    by (rule inv [unfolded s offspring_inv_def prod.case])
  then have old: "take (length (arrays w)) (arrays w') = arrays w"
    and le: "length (arrays w) \<le> length (arrays w')"
    and em: "list_all (evaluated_mutant obj ?gs w') (tl pop)"
    by blast+
  have exp': "objects w' ! expert = objects w ! expert" by (rule f(5))
  have src: "genes (objects w' ! expert) < length (arrays w')"
    using ex(2) le by (simp add: exp')
  have "arrays w' ! genes (objects w ! expert) =
          take (length (arrays w)) (arrays w') ! genes (objects w ! expert)"
    using ex(2) by simp
  then have gs: "arrays w' ! genes (objects w' ! expert) = ?gs"
    by (simp add: old exp')
  let ?cs = "map (\<lambda>i. if unif_tape w' i < default_mutation_rate then py_not (?gs ! i)
                       else ?gs ! i) [0..<length ?gs]"
  let ?rs = "map (\<lambda>i. if bit_tape w' i then 1 else 0) [0..<length ?gs]"
  note mr = mutate_result [OF src, of default_mutation_rate, unfolded gs]
  have arm: "arrays (snd ?m) = arrays w' @ [?cs, ?rs]"
    by (simp add: mr)
  have ar: "arrays ?w2 = arrays w' @ [?cs, ?rs]"
    by (simp add: arm)
  have ob: "objects ?w2 = objects w' @ [\<lparr>genes = length (arrays w'), fitness = Num (obj ?cs NegInf)\<rparr>]"
    using offspring_objects_eq [of w' obj expert default_mutation_rate]
    by (simp add: mr)
  have res: "\<exists>b. opl_offspring obj expert j s = (pop @ [?c], b, ?w2)"
    unfolding s opl_offspring_result [OF f(1) f(3) [unfolded f(1)]] by blast
  have valid: "r < length (objects w')" if "r \<in> set (tl pop)" for r
  proof -
    have "r \<in> set pop" using that by (cases pop) auto
    then show ?thesis using f(11) by (simp add: list_all_iff)
  qed
  have keep: "evaluated_mutant obj ?gs ?w2 r" if "r \<in> set (tl pop)" for r
  proof -
    have "evaluated_mutant obj ?gs w' r" using em that by (simp add: list_all_iff)
    then show ?thesis
      using valid [OF that] by (simp add: evaluated_mutant_def arm ob nth_append)
  qed
  have new: "evaluated_mutant obj ?gs ?w2 ?c"
    by (simp add: evaluated_mutant_def arm ob is_mutant_flips)
  have pne: "pop \<noteq> []" using f(1) j by auto
  have "list_all (evaluated_mutant obj ?gs ?w2) (tl (pop @ [?c]))"
    using keep new pne by (simp add: list_all_iff)
  moreover have "take (length (arrays w)) (arrays ?w2) = arrays w"
    using old le by (simp add: arm)
  moreover have "length (arrays w) \<le> length (arrays ?w2)"
    using le by (simp add: arm)
  ultimately show ?thesis
    using res by (auto simp: offspring_inv_def)
qed

lemma opl_select_offspring_inv:
  assumes "expert < length (objects w)" "genes (objects w ! expert) < length (arrays w)"
  shows "offspring_inv obj expert w (opl_select obj lam expert w)"
proof (cases "1 \<le> nat lam")
  case True
  let ?P = "\<lambda>j s. select_inv expert w j s \<and> offspring_inv obj expert w s"
  have "?P (nat lam) (fold (opl_offspring obj expert) [1..<nat lam] ([expert], 0, w))"
  proof (rule fold_upt_invariant [where P = ?P])
    show "?P 1 ([expert], 0, w)"
      using select_inv_start [of expert w] offspring_inv_start [of obj expert w] by simp
    show "1 \<le> nat lam" by (rule True)
    fix k s assume "1 \<le> k" "k < nat lam" "?P k s"
    then show "?P (Suc k) (opl_offspring obj expert k s)"
      using assms by (simp add: select_inv_step offspring_inv_step)
  qed
  then show ?thesis by (simp add: opl_select_def)
next
  case False
  then show ?thesis by (simp add: opl_select_def offspring_inv_start)
qed

text \<open>
  C6: in a generation of \<^verbatim>\<open>one_plus_lambda\<close> with a population size of at least 1,
  started with an expert of the store, the population is the expert, at index 0 and
  unchanged, followed by exactly \<open>lam - 1\<close> new individuals in the order of their creation,
  each an evaluated mutant of the expert's genome; \<^verbatim>\<open>best\<close> is the first index of maximal
  fitness (no candidate is fitter, and every candidate before it is strictly less fit); and
  the expert of the next generation is that candidate if its fitness is \<^verbatim>\<open>>=\<close> the
  expert's, and the expert otherwise.
\<close>

theorem one_plus_lambda_generation:
  assumes "1 \<le> lam" "expert < length (objects w)"
    "genes (objects w ! expert) < length (arrays w)"
  shows "case opl_select objective lam expert w of (population, best, w1) \<Rightarrow>
     length population = nat lam \<and>
     population = expert # [length (objects w)..<length (objects w) + (nat lam - 1)] \<and>
     length (objects w1) = length (objects w) + (nat lam - 1) \<and>
     list_all (evaluated_mutant objective (arrays w ! genes (objects w ! expert)) w1)
        (tl population) \<and>
     objects w1 ! expert = objects w ! expert \<and>
     best < length population \<and>
     (\<forall>k<length population. fit_ge (fitness (objects w1 ! (population ! best)))
                                       (fitness (objects w1 ! (population ! k)))) \<and>
     (\<forall>k<best. fit_gt (fitness (objects w1 ! (population ! best)))
                         (fitness (objects w1 ! (population ! k)))) \<and>
     opl_generation objective lam i (expert, fits, w) =
       (let expert' = (if fit_ge (fitness (objects w1 ! (population ! best)))
                                 (fitness (objects w1 ! expert))
                       then population ! best else expert)
        in (expert', fits[i := fitness (objects w1 ! expert')], w1))"
proof -
  obtain pop best w1 where sel: "opl_select objective lam expert w = (pop, best, w1)"
    by (cases "opl_select objective lam expert w")
  have j: "1 \<le> nat lam" using assms(1) by simp
  have inv: "select_inv expert w (nat lam) (pop, best, w1)"
    using opl_select_inv [OF assms(2), of lam objective] j by (simp add: sel max_def)
  note f = select_inv_facts [OF inv j assms(2)]
  have "offspring_inv objective expert w (pop, best, w1)"
    using opl_select_offspring_inv [OF assms(2,3), of objective lam] by (simp add: sel)
  then have em: "list_all (evaluated_mutant objective (arrays w ! genes (objects w ! expert)) w1)
        (tl pop)"
    by (simp add: offspring_inv_def)
  have gen: "opl_generation objective lam i (expert, fits, w) =
       (let expert' = (if fit_ge (fitness (objects w1 ! (pop ! best)))
                                 (fitness (objects w1 ! expert))
                       then pop ! best else expert)
        in (expert', fits[i := fitness (objects w1 ! expert')], w1))"
    by (simp add: opl_generation_def sel)
  show ?thesis
    unfolding sel prod.case
    by (intro conjI f(1) f(9) f(10) em f(5) f(3) f(7) f(8) gen)
qed

text \<open>
  A generation with three candidates, from the store with the genome \<open>[0, 1, 1]\<close>: both
  offspring reach fitness 3, and the first of them is selected.
\<close>

lemma opl_select_world1:
  "(case opl_select onemax 3 0 world1 of (population, best, w1) \<Rightarrow>
      population = [0, 1, 2] \<and> best = 1 \<and>
      map (\<lambda>r. fitness (objects w1 ! r)) population = [Num 2, Num 3, Num 3] \<and>
      map (\<lambda>r. arrays w1 ! genes (objects w1 ! r)) population = [[0, 1, 1], [1, 1, 1], [1, 1, 1]])"
  by (simp add: world1_def opl_select_def opl_offspring_def mutate_default_def mutate_def
      np_copy_def new_array_def mutate_step_def rand_def default_mutation_rate_def
      global_ind_length_def py_not_def Individual_init_def randint_def evaluate_def onemax_def
      numeral_3_eq_3)

theorem one_plus_lambda_generation_witness:
  "(1::int) \<le> 3 \<and> (0::nat) < length (objects world1) \<and>
   genes (objects world1 ! 0) < length (arrays world1) \<and>
   (case opl_select onemax 3 0 world1 of (population, best, w1) \<Rightarrow>
     length population = nat 3 \<and>
     population = 0 # [length (objects world1)..<length (objects world1) + (nat 3 - 1)] \<and>
     length (objects w1) = length (objects world1) + (nat 3 - 1) \<and>
     list_all (evaluated_mutant onemax (arrays world1 ! genes (objects world1 ! 0)) w1)
        (tl population) \<and>
     objects w1 ! 0 = objects world1 ! 0 \<and>
     best < length population \<and>
     (\<forall>k<length population. fit_ge (fitness (objects w1 ! (population ! best)))
                                       (fitness (objects w1 ! (population ! k)))) \<and>
     (\<forall>k<best. fit_gt (fitness (objects w1 ! (population ! best)))
                         (fitness (objects w1 ! (population ! k)))) \<and>
     opl_generation onemax 3 0 (0, [Num 0], world1) =
       (let expert' = (if fit_ge (fitness (objects w1 ! (population ! best)))
                                 (fitness (objects w1 ! 0))
                       then population ! best else 0)
        in (expert', [Num 0][0 := fitness (objects w1 ! expert')], w1))) \<and>
   (case opl_select onemax 3 0 world1 of (population, best, w1) \<Rightarrow>
      population = [0, 1, 2] \<and> best = 1 \<and>
      map (\<lambda>r. fitness (objects w1 ! r)) population = [Num 2, Num 3, Num 3] \<and>
      map (\<lambda>r. arrays w1 ! genes (objects w1 ! r)) population =
        [[0, 1, 1], [1, 1, 1], [1, 1, 1]])"
proof -
  have h: "(1::int) \<le> 3" "(0::nat) < length (objects world1)"
    "genes (objects world1 ! 0) < length (arrays world1)"
    by (simp_all add: world1_def)
  note t = one_plus_lambda_generation [OF h, of onemax 0 "[Num 0]"]
  show ?thesis
    by (intro conjI h t opl_select_world1)
qed


section \<open>A population of one\<close>

lemma opl_generation_lam_1:
  "opl_generation obj 1 i (expert, fits, w) =
     (expert, fits[i := fitness (objects w ! expert)], w)"
  by (simp add: opl_generation_def opl_select_def Let_def)

lemma fold_constant_trace:
  assumes "k \<le> g"
  shows "fold (opl_generation obj 1) [0..<k] (expert, replicate g (Num 0), w) =
     (expert, replicate k (fitness (objects w ! expert)) @ replicate (g - k) (Num 0), w)"
  using assms
proof (induction k)
  case 0
  show ?case by simp
next
  case (Suc k)
  let ?x = "fitness (objects w ! expert)"
  obtain m where m: "g - k = Suc m" "g - Suc k = m"
    using Suc.prems by (cases "g - k") auto
  have "(replicate k ?x @ replicate (g - k) (Num 0))[k := ?x] =
        replicate k ?x @ ?x # replicate m (Num 0)"
    by (simp add: m list_update_append)
  also have "\<dots> = replicate (Suc k) ?x @ replicate (g - Suc k) (Num 0)"
    by (simp add: m replicate_app_Cons_same)
  finally show ?case
    using Suc by (simp add: opl_generation_lam_1)
qed

text \<open>
  C2, as stated, fails: from the same store and generator, one generation on a genome of
  length 1 records fitness 0 with \<^verbatim>\<open>one_plus_lambda\<close> and a population of 1, and
  fitness 1 with \<^verbatim>\<open>one_plus_one\<close>, which has mutated its parent.
\<close>

theorem one_plus_lambda_1_counterexample:
  "map_sum id fst (one_plus_lambda 1 1 onemax 1 world0) = Inr [Num 0] \<and>
   map_sum id fst (one_plus_one 1 1 onemax world0) = Inr [Num 1]"
  by (simp add: world0_def one_plus_one_def one_plus_lambda_def Individual_def
      Individual_init_def randint_def new_array_def evaluate_def onemax_def
      opo_generation_def opl_generation_def opl_select_def mutate_default_def mutate_def
      np_copy_def mutate_step_def rand_def default_mutation_rate_def global_ind_length_def
      py_not_def)

text \<open>
  C2, amended: with a population of 1, \<^verbatim>\<open>one_plus_lambda\<close> creates and evaluates the
  expert and nothing else; the store it returns is the one after that evaluation, and the
  trace is the expert's first fitness at every generation. \<^verbatim>\<open>one_plus_one\<close>, started
  from the same store and generator, has the same first parent and records fitnesses that
  are never below that value (and can be above it, as the counterexample shows).
\<close>

theorem one_plus_lambda_1_constant:
  assumes "0 \<le> ind_length" "0 \<le> num_generations"
  shows "case Individual_init (nat ind_length) w of (expert, w1) \<Rightarrow>
           case evaluate expert objective w1 of (r, w2) \<Rightarrow>
             one_plus_lambda ind_length num_generations objective 1 w =
               Inr (replicate (nat num_generations) (fitness (objects w2 ! expert)), w2) \<and>
             (case one_plus_one ind_length num_generations objective w of
                Inl e \<Rightarrow> False
              | Inr (fits, w') \<Rightarrow>
                  length fits = nat num_generations \<and>
                  list_all (\<lambda>a. fit_ge a (fitness (objects w2 ! expert))) fits)"
proof -
  let ?i = "Individual_init (nat ind_length) w"
  let ?w2 = "snd (evaluate (length (objects w)) objective (snd ?i))"
  have a: "one_plus_lambda ind_length num_generations objective 1 w =
      Inr (replicate (nat num_generations) (fitness (objects ?w2 ! length (objects w))), ?w2)"
    using assms
    by (simp add: one_plus_lambda_def Individual_def Individual_init_fst split_def Let_def
        fold_constant_trace)
  from one_plus_one_trace [OF assms, of objective w]
  have b: "case one_plus_one ind_length num_generations objective w of
                Inl e \<Rightarrow> False
              | Inr (fits, w') \<Rightarrow>
                  length fits = nat num_generations \<and>
                  list_all (\<lambda>a. fit_ge a (fitness (objects ?w2 ! length (objects w)))) fits"
    by (auto simp: Individual_init_fst)
  show ?thesis
    unfolding split_def Individual_init_fst by (rule conjI [OF a b [unfolded split_def]])
qed

theorem one_plus_lambda_1_constant_witness:
  "(0::int) \<le> 1 \<and> (0::int) \<le> 1 \<and>
   (case Individual_init (nat 1) world0 of (expert, w1) \<Rightarrow>
      case evaluate expert onemax w1 of (r, w2) \<Rightarrow>
        one_plus_lambda 1 1 onemax 1 world0 =
          Inr (replicate (nat 1) (fitness (objects w2 ! expert)), w2) \<and>
        (case one_plus_one 1 1 onemax world0 of
           Inl e \<Rightarrow> False
         | Inr (fits, w') \<Rightarrow>
             length fits = nat 1 \<and>
             list_all (\<lambda>a. fit_ge a (fitness (objects w2 ! expert))) fits))"
proof -
  have h: "(0::int) \<le> 1" by simp
  from h one_plus_lambda_1_constant [OF h h, of onemax world0] show ?thesis
    by blast
qed


section \<open>What evaluate returns and changes\<close>

text \<open>
  C8, as stated, fails: \<^verbatim>\<open>evaluate\<close> stores the fitness 2 in the individual, and its
  own value is \<^verbatim>\<open>None\<close>, not that fitness.
\<close>

theorem evaluate_returns_none:
  "fst (evaluate 0 onemax world1) = None \<and>
   fitness (objects (snd (evaluate 0 onemax world1)) ! 0) = Num 2"
  by (simp add: evaluate_def world1_def onemax_def)

text \<open>
  C8, amended: for every individual of the store and every objective, \<^verbatim>\<open>evaluate\<close>
  returns \<^verbatim>\<open>None\<close> and changes one thing, the fitness field of that individual, which
  becomes the objective's value on it; and for an objective that reads the genes only, a
  second call leaves the store as the first call left it.
\<close>

theorem evaluate_sets_fitness:
  assumes "ind < length (objects w)"
  shows "(case evaluate ind objective w of (r, w') \<Rightarrow>
      r = None \<and>
      objects w' = (objects w)[ind := (objects w ! ind)
         \<lparr>fitness := Num (objective (arrays w ! genes (objects w ! ind))
                                     (fitness (objects w ! ind)))\<rparr>] \<and>
      fitness (objects w' ! ind) =
         Num (objective (arrays w ! genes (objects w ! ind)) (fitness (objects w ! ind))) \<and>
      genes (objects w' ! ind) = genes (objects w ! ind) \<and>
      arrays w' = arrays w \<and> bit_tape w' = bit_tape w \<and> unif_tape w' = unif_tape w) \<and>
    snd (evaluate ind (\<lambda>gs fitn. h gs) (snd (evaluate ind (\<lambda>gs fitn. h gs) w))) =
      snd (evaluate ind (\<lambda>gs fitn. h gs) w)"
  using assms by (simp add: evaluate_def Let_def)

theorem evaluate_sets_fitness_witness:
  "(0::nat) < length (objects world1) \<and>
   (case evaluate 0 leading_ones world1 of (r, w') \<Rightarrow>
      r = None \<and>
      objects w' = (objects world1)[0 := (objects world1 ! 0)
         \<lparr>fitness := Num (leading_ones (arrays world1 ! genes (objects world1 ! 0))
                                     (fitness (objects world1 ! 0)))\<rparr>] \<and>
      fitness (objects w' ! 0) =
         Num (leading_ones (arrays world1 ! genes (objects world1 ! 0)) (fitness (objects world1 ! 0))) \<and>
      genes (objects w' ! 0) = genes (objects world1 ! 0) \<and>
      arrays w' = arrays world1 \<and> bit_tape w' = bit_tape world1 \<and> unif_tape w' = unif_tape world1) \<and>
    snd (evaluate 0 (\<lambda>gs fitn. sum_list gs) (snd (evaluate 0 (\<lambda>gs fitn. sum_list gs) world1))) =
      snd (evaluate 0 (\<lambda>gs fitn. sum_list gs) world1) \<and>
    leading_ones (arrays world1 ! genes (objects world1 ! 0)) (fitness (objects world1 ! 0)) = 0"
proof -
  have h: "(0::nat) < length (objects world1)" by (simp add: world1_def)
  have e: "leading_ones (arrays world1 ! genes (objects world1 ! 0)) (fitness (objects world1 ! 0)) = 0"
    by (simp add: world1_def leading_ones_def upt_rec)
  note t = evaluate_sets_fitness [OF h, of leading_ones sum_list]
  show ?thesis
    by (rule conjI [OF h conjI [OF t [THEN conjunct1] conjI [OF t [THEN conjunct2] e]]])
qed


section \<open>The default mutation rate\<close>

text \<open>
  C9: the rate of a call \<^verbatim>\<open>mutate(parent)\<close> is claimed to be 1/n for the parent's
  own genome length n. For a parent of 20 genes the code uses 1/10, from the 10 genes of
  the notebook's global \<^verbatim>\<open>ind\<close>: with every draw at 0.07 the call flips all 20 genes,
  where the rate 1/20 flips none.
\<close>

theorem mutate_default_rate_is_global:
  "length (arrays world20 ! genes (objects world20 ! 0)) = 20 \<and>
   default_mutation_rate = 1 / 10 \<and>
   arrays (snd (mutate_default 0 world20)) ! 1 = replicate 20 1 \<and>
   arrays (snd (mutate 0 (1 / 20) world20)) ! 1 = replicate 20 0"
proof -
  have src: "genes (objects world20 ! 0) < length (arrays world20)"
    by (simp add: world20_def)
  have g: "arrays world20 ! genes (objects world20 ! 0) = replicate 20 0"
    by (simp add: world20_def)
  have t: "unif_tape world20 i = 7 / 100" for i by (simp add: world20_def)
  have ar: "arrays world20 = [replicate 20 0]" by (simp add: world20_def)
  have r: "default_mutation_rate = 1 / 10"
    by (simp add: default_mutation_rate_def global_ind_length_def)
  have m1: "map (\<lambda>i. if (7 / 100 :: rat) < 1 / 10 then py_not (replicate 20 0 ! i)
                      else replicate 20 0 ! i) [0..<20] = replicate 20 1"
    by (intro nth_equalityI) (simp_all add: py_not_def)
  have m2: "map (\<lambda>i. if (7 / 100 :: rat) < 1 / 20 then py_not (replicate 20 0 ! i)
                      else replicate 20 0 ! i) [0..<20] = replicate 20 0"
    by (intro nth_equalityI) simp_all
  have a: "arrays (snd (mutate 0 (1 / 10) world20)) ! 1 = replicate 20 1"
    unfolding mutate_result [OF src] g t using m1 by (simp add: ar)
  have b: "arrays (snd (mutate 0 (1 / 20) world20)) ! 1 = replicate 20 0"
    unfolding mutate_result [OF src] g t using m2 by (simp add: ar)
  show ?thesis using a b g r by (simp add: mutate_default_def)
qed

section \<open>Arguments out of range\<close>

text \<open>
  Nothing checks the rate: it is only compared with draws, so any rate of 1 or more
  behaves as 1, and any rate of 0 or less as 0.
\<close>

lemma mutate_step_unif_tape [simp]:
  "unif_tape (mutate_step ind d rate i w) = (\<lambda>k. unif_tape w (Suc k))"
  by (simp add: mutate_step_def rand_def)

lemma mutate_loop_rate_above:
  assumes "\<forall>i. unif_tape w i < 1" "1 \<le> rate"
  shows "fold (mutate_step ind d rate) js w = fold (mutate_step ind d 1) js w"
  using assms(1)
proof (induction js arbitrary: w)
  case Nil
  show ?case by simp
next
  case (Cons j js)
  have "unif_tape w 0 < 1" using Cons.prems by simp
  then have s: "mutate_step ind d rate j w = mutate_step ind d 1 j w"
    using assms(2) by (simp add: mutate_step_def rand_def)
  have "\<forall>i. unif_tape (mutate_step ind d 1 j w) i < 1"
    using Cons.prems by simp
  then show ?case by (simp add: s Cons.IH)
qed

lemma mutate_loop_rate_below:
  assumes "\<forall>i. 0 \<le> unif_tape w i" "rate \<le> 0"
  shows "fold (mutate_step ind d rate) js w = fold (mutate_step ind d 0) js w"
  using assms(1)
proof (induction js arbitrary: w)
  case Nil
  show ?case by simp
next
  case (Cons j js)
  have "0 \<le> unif_tape w 0" using Cons.prems by simp
  then have s: "mutate_step ind d rate j w = mutate_step ind d 0 j w"
    using assms(2) by (simp add: mutate_step_def rand_def)
  have "\<forall>i. 0 \<le> unif_tape (mutate_step ind d 0 j w) i"
    using Cons.prems by simp
  then show ?case by (simp add: s Cons.IH)
qed

lemma mutate_rate_above:
  assumes "\<forall>i. unif_tape w i < 1" "1 \<le> rate"
  shows "mutate ind rate w = mutate ind 1 w"
proof -
  have "\<forall>i. unif_tape (snd (np_copy (genes (objects w ! ind)) w)) i < 1"
    using assms(1) by (simp add: np_copy_def new_array_def)
  then show ?thesis
    by (simp add: mutate_def split_def mutate_loop_rate_above [OF _ assms(2)])
qed

lemma mutate_rate_below:
  assumes "\<forall>i. 0 \<le> unif_tape w i" "rate \<le> 0"
  shows "mutate ind rate w = mutate ind 0 w"
proof -
  have "\<forall>i. 0 \<le> unif_tape (snd (np_copy (genes (objects w ! ind)) w)) i"
    using assms(1) by (simp add: np_copy_def new_array_def)
  then show ?thesis
    by (simp add: mutate_def split_def mutate_loop_rate_below [OF _ assms(2)])
qed

lemma opl_select_below_1:
  "lam < 1 \<Longrightarrow> opl_select obj lam expert w = opl_select obj 1 expert w"
  by (simp add: opl_select_def)

lemma opl_generation_below_1:
  "lam < 1 \<Longrightarrow> opl_generation obj lam = opl_generation obj 1"
  by (intro ext) (simp add: opl_generation_def opl_select_below_1)

text \<open>
  C7, as stated, fails: \<^verbatim>\<open>Individual(0)\<close> returns an individual with an empty genome,
  \<^verbatim>\<open>mutate\<close> accepts the rates 2 and -1 (flipping every gene, and none), and
  \<^verbatim>\<open>one_plus_lambda\<close> with 0 or -3 for the population size returns a trace.
\<close>

theorem no_validation_counterexample:
  "Individual 0 world0 =
     Inr (0, world0\<lparr>arrays := [[]], objects := [\<lparr>genes = 0, fitness = NegInf\<rparr>]\<rparr>) \<and>
   arrays (snd (mutate 0 2 world1)) ! 1 = [1, 0, 0] \<and>
   arrays (snd (mutate 0 (- 1) world1)) ! 1 = [0, 1, 1] \<and>
   map_sum id fst (one_plus_lambda 2 1 onemax 0 world0) = Inr [Num 0] \<and>
   map_sum id fst (one_plus_lambda 2 1 onemax (- 3) world0) = Inr [Num 0]"
proof -
  have src: "genes (objects world1 ! 0) < length (arrays world1)"
    by (simp add: world1_def)
  have g: "arrays world1 ! genes (objects world1 ! 0) = [0, 1, 1]"
    by (simp add: world1_def)
  have ar: "arrays world1 = [[0, 1, 1]]" by (simp add: world1_def)
  have t: "unif_tape world1 = (\<lambda>i. if i = 0 \<or> i = 3 then 7 / 100 else 1 / 2)"
    by (simp add: world1_def)
  have a: "Individual 0 world0 =
     Inr (0, world0\<lparr>arrays := [[]], objects := [\<lparr>genes = 0, fitness = NegInf\<rparr>]\<rparr>)"
    by (simp add: world0_def Individual_def Individual_init_def randint_def new_array_def)
  have b: "arrays (snd (mutate 0 2 world1)) ! 1 = [1, 0, 0]"
    unfolding mutate_result [OF src] g by (simp add: ar t py_not_def)
  have c: "arrays (snd (mutate 0 (- 1) world1)) ! 1 = [0, 1, 1]"
    unfolding mutate_result [OF src] g by (simp add: ar t py_not_def)
  have d: "map_sum id fst (one_plus_lambda 2 1 onemax 0 world0) = Inr [Num 0]"
    by (simp add: world0_def one_plus_lambda_def Individual_def Individual_init_def
        randint_def new_array_def evaluate_def onemax_def opl_generation_def opl_select_def
        upt_rec)
  have e: "map_sum id fst (one_plus_lambda 2 1 onemax (- 3) world0) = Inr [Num 0]"
    by (simp add: world0_def one_plus_lambda_def Individual_def Individual_init_def
        randint_def new_array_def evaluate_def onemax_def opl_generation_def opl_select_def
        upt_rec)
  show ?thesis by (intro conjI a b c d e)
qed

text \<open>
  C7, amended: of the rejections claimed, the code has one. A negative genome length
  fails in numpy with \<^verbatim>\<open>ValueError\<close>, in \<^verbatim>\<open>Individual\<close> and, through it, in both
  algorithms before their first generation, whatever the other arguments are. The other
  three inputs are accepted: a genome length of 0 gives an individual with an empty genome;
  a population size below 1 runs as the size 1; and, with draws in [0, 1), a mutation rate
  of 1 or more acts as the rate 1 and a rate of 0 or less as the rate 0.
\<close>

theorem negative_length_rejected_rest_accepted:
  "(n < 0 \<longrightarrow>
      Individual n w = Inl ValueError \<and>
      one_plus_one n g obj w = Inl ValueError \<and>
      one_plus_lambda n g obj lam w = Inl ValueError) \<and>
   (case Individual 0 w of
      Inl e \<Rightarrow> False
    | Inr (a, w') \<Rightarrow> arrays w' ! genes (objects w' ! a) = [] \<and>
                      fitness (objects w' ! a) = NegInf) \<and>
   (lam < 1 \<longrightarrow> one_plus_lambda n g obj lam w = one_plus_lambda n g obj 1 w) \<and>
   ((\<forall>i. 0 \<le> unif_tape w i \<and> unif_tape w i < 1) \<longrightarrow>
      (1 \<le> rate \<longrightarrow> mutate ind rate w = mutate ind 1 w) \<and>
      (rate \<le> 0 \<longrightarrow> mutate ind rate w = mutate ind 0 w))"
proof (intro conjI)
  show "n < 0 \<longrightarrow>
      Individual n w = Inl ValueError \<and>
      one_plus_one n g obj w = Inl ValueError \<and>
      one_plus_lambda n g obj lam w = Inl ValueError"
    by (simp add: Individual_def one_plus_one_def one_plus_lambda_def)
  show "case Individual 0 w of
      Inl e \<Rightarrow> False
    | Inr (a, w') \<Rightarrow> arrays w' ! genes (objects w' ! a) = [] \<and>
                      fitness (objects w' ! a) = NegInf"
    by (simp add: Individual_def Individual_init_def randint_def new_array_def)
  show "lam < 1 \<longrightarrow> one_plus_lambda n g obj lam w = one_plus_lambda n g obj 1 w"
  proof
    assume "lam < 1"
    then have e: "opl_generation obj lam = opl_generation obj 1"
      by (rule opl_generation_below_1)
    show "one_plus_lambda n g obj lam w = one_plus_lambda n g obj 1 w"
      unfolding one_plus_lambda_def e by (rule refl)
  qed
  show "(\<forall>i. 0 \<le> unif_tape w i \<and> unif_tape w i < 1) \<longrightarrow>
      (1 \<le> rate \<longrightarrow> mutate ind rate w = mutate ind 1 w) \<and>
      (rate \<le> 0 \<longrightarrow> mutate ind rate w = mutate ind 0 w)"
  proof (intro impI conjI)
    assume t: "\<forall>i. 0 \<le> unif_tape w i \<and> unif_tape w i < 1"
    then have lt: "\<forall>i. unif_tape w i < 1" and ge: "\<forall>i. 0 \<le> unif_tape w i"
      by simp_all
    show "mutate ind rate w = mutate ind 1 w" if "1 \<le> rate"
      by (rule mutate_rate_above [OF lt that])
    show "mutate ind rate w = mutate ind 0 w" if "rate \<le> 0"
      by (rule mutate_rate_below [OF ge that])
  qed
qed

theorem negative_length_rejected_rest_accepted_witness:
  "(- 1 :: int) < 0 \<and>
   Individual (- 1) world1 = Inl ValueError \<and>
   one_plus_one (- 1) 1 onemax world1 = Inl ValueError \<and>
   one_plus_lambda (- 1) 1 onemax 3 world1 = Inl ValueError \<and>
   (case Individual 0 world1 of
      Inl e \<Rightarrow> False
    | Inr (a, w') \<Rightarrow> arrays w' ! genes (objects w' ! a) = [] \<and>
                      fitness (objects w' ! a) = NegInf) \<and>
   (0 :: int) < 1 \<and>
   one_plus_lambda 2 1 onemax 0 world1 = one_plus_lambda 2 1 onemax 1 world1 \<and>
   (\<forall>i. 0 \<le> unif_tape world1 i \<and> unif_tape world1 i < 1) \<and>
   (1 :: rat) \<le> 2 \<and> mutate 0 2 world1 = mutate 0 1 world1 \<and>
   (- 1 :: rat) \<le> 0 \<and> mutate 0 (- 1) world1 = mutate 0 0 world1"
proof -
  have t: "\<forall>i. 0 \<le> unif_tape world1 i \<and> unif_tape world1 i < 1"
    by (simp add: world1_def)
  have h: "(- 1 :: int) < 0" "(0 :: int) < 1" "(1 :: rat) \<le> 2" "(- 1 :: rat) \<le> 0"
    by simp_all
  note r1 = negative_length_rejected_rest_accepted [of "- 1" world1 1 onemax 3 2 0]
  note r2 = negative_length_rejected_rest_accepted [of 2 world1 1 onemax 0 "- 1" 0]
  from r1 h(1) have a: "Individual (- 1) world1 = Inl ValueError \<and>
      one_plus_one (- 1) 1 onemax world1 = Inl ValueError \<and>
      one_plus_lambda (- 1) 1 onemax 3 world1 = Inl ValueError"
    by blast
  from r1 have b: "case Individual 0 world1 of
      Inl e \<Rightarrow> False
    | Inr (a, w') \<Rightarrow> arrays w' ! genes (objects w' ! a) = [] \<and>
                      fitness (objects w' ! a) = NegInf"
    by blast
  from r2 h(2) have c: "one_plus_lambda 2 1 onemax 0 world1 = one_plus_lambda 2 1 onemax 1 world1"
    by blast
  from r1 t h(3) have d: "mutate 0 2 world1 = mutate 0 1 world1" by blast
  from r2 t h(4) have e: "mutate 0 (- 1) world1 = mutate 0 0 world1" by blast
  from a b c d e t h show ?thesis by blast
qed

end
